theory Spec2Isabelle
  imports Main
begin

unbundle bit_operations_syntax

section \<open>Python values, exceptions and results\<close>

text \<open>
  The module \<open>RestOC/Services.py\<close> is Python 3 (\<open>super().__init__\<close> without
  arguments, \<open>print(..., end='')\<close>). Its values are modelled by the datatype below.
  A \<open>str\<close> is a \<open>string\<close> of ASCII characters, \<open>bytes\<close> is a \<open>string\<close> of
  8-bit characters, an \<open>int\<close> is an unbounded \<open>int\<close>. A \<open>dict\<close> is an association
  list in insertion order whose keys are distinct. \<open>PExc\<close> is an instance of a subclass of
  \<open>Exception\<close> with its \<open>args\<close>; \<open>PEffect\<close> is an instance of the class \<open>Effect\<close>
  with its three optional attributes; \<open>PObject\<close> is an instance of a class that derives
  from none of these (a float, a set, such a user class), named by its class.
\<close>

datatype exc_class =
    ValueError | KeyError | TypeError | IndexError | NameError | AttributeError
  | ConnectionError | EffectException | OtherException string

datatype pyval =
    PNone
  | PBool bool
  | PInt int
  | PStr string
  | PBytes string
  | PTuple "pyval list"
  | PList "pyval list"
  | PDict "(pyval \<times> pyval) list"
  | PExc exc_class "pyval list"
  | PEffect "pyval option" "pyval option" "pyval option"
  | PObject string

text \<open>
  A raised exception is its class and its \<open>args\<close>. The \<open>args\<close> are given where the
  source gives them (\<open>ValueError('error')\<close>) and for a \<open>KeyError\<close> (the missing key); an
  exception raised by the interpreter itself carries no message here. A computation that can
  raise returns \<open>Inl\<close> of the exception or \<open>Inr\<close> of its value.
\<close>

type_synonym exn = "exc_class \<times> pyval list"

type_synonym 'a result = "exn + 'a"

section \<open>Built-ins of the language and its library\<close>

subsection \<open>\<open>str(int)\<close> and \<open>int(str)\<close>\<close>

definition digit_char :: "int \<Rightarrow> char" where
  "digit_char n = char_of (48 + n mod 10)"

text \<open>The decimal digits of an integer that is not negative.\<close>

function int_str :: "int \<Rightarrow> string" where
  "int_str n = (if n < 10 then [digit_char n] else int_str (n div 10) @ [digit_char (n mod 10)])"
  by pat_completeness auto
termination
  by (relation "measure nat") auto

declare int_str.simps [simp del]

definition py_str_int :: "int \<Rightarrow> string" where
  "py_str_int i = (if i < 0 then CHR ''-'' # int_str (- i) else int_str i)"

text \<open>
  \<open>int(s)\<close> in base ten on an ASCII string: the white space of C (the characters 9 to 13
  and the blank, 32) is skipped at both ends, one sign is allowed, then decimal digits, where
  single underscores may stand between digits. Anything else raises \<open>ValueError\<close>, which
  is \<open>None\<close> here; so do the separators 28 to 31, which \<open>str.strip\<close> would remove. (The
  bound on the number of digits that later versions of the interpreter put on this
  conversion is not part of the model.)
\<close>

definition is_space :: "char \<Rightarrow> bool" where
  "is_space c = (let n = (of_char c :: int) in (9 \<le> n \<and> n \<le> 13) \<or> n = 32)"

definition is_digit :: "char \<Rightarrow> bool" where
  "is_digit c = (let n = (of_char c :: int) in 48 \<le> n \<and> n \<le> 57)"

definition strip :: "string \<Rightarrow> string" where
  "strip s = rev (dropWhile is_space (rev (dropWhile is_space s)))"

fun parse_dec :: "bool \<Rightarrow> int \<Rightarrow> string \<Rightarrow> int option" where
  "parse_dec prev acc [] = (if prev then Some acc else None)"
| "parse_dec prev acc (c # cs) =
     (if is_digit c then parse_dec True (10 * acc + (of_char c - 48)) cs
      else if c = CHR ''_'' \<and> prev then parse_dec False acc cs
      else None)"

definition py_int :: "string \<Rightarrow> int option" where
  "py_int s =
     (case strip s of
        [] \<Rightarrow> None
      | c # r \<Rightarrow>
          if c = CHR ''-'' then map_option uminus (parse_dec False 0 r)
          else if c = CHR ''+'' then parse_dec False 0 r
          else parse_dec False 0 (c # r))"

subsection \<open>\<open>str.split\<close>, \<open>str.upper\<close>, \<open>str.lower\<close>, \<open>str(bytes)\<close>\<close>

fun split_on :: "char \<Rightarrow> string \<Rightarrow> string list" where
  "split_on c [] = [[]]"
| "split_on c (x # xs) =
     (if x = c then [] # split_on c xs
      else (case split_on c xs of [] \<Rightarrow> [[x]] | p # ps \<Rightarrow> (x # p) # ps))"

definition upper_char :: "char \<Rightarrow> char" where
  "upper_char c = (let n = (of_char c :: int) in if 97 \<le> n \<and> n \<le> 122 then char_of (n - 32) else c)"

definition lower_char :: "char \<Rightarrow> char" where
  "lower_char c = (let n = (of_char c :: int) in if 65 \<le> n \<and> n \<le> 90 then char_of (n + 32) else c)"

definition str_lower :: "string \<Rightarrow> string" where
  "str_lower s = map lower_char s"

definition hex_digit :: "int \<Rightarrow> char" where
  "hex_digit n = ''0123456789abcdef'' ! nat (n mod 16)"

text \<open>
  \<open>'%s' % b\<close> for a \<open>bytes\<close> value \<open>b\<close> is \<open>repr(b)\<close>: the letter \<open>b\<close>, a quote, the
  bytes with the quote and the backslash escaped, tab, newline and carriage return as
  \<open>\t\<close>, \<open>\n\<close>, \<open>\r\<close>, every other byte outside the printable ASCII range as \<open>\xhh\<close>, and
  the quote again. The quote is the double quote when the bytes hold a single quote and no
  double quote, and the single quote otherwise.
\<close>

definition bytes_repr_char :: "char \<Rightarrow> char \<Rightarrow> string" where
  "bytes_repr_char q c =
     (let n = (of_char c :: int) in
      if c = q \<or> n = 92 then [CHR 0x5C, c]
      else if n = 9 then [CHR 0x5C, CHR ''t'']
      else if n = 10 then [CHR 0x5C, CHR ''n'']
      else if n = 13 then [CHR 0x5C, CHR ''r'']
      else if n < 32 \<or> 127 \<le> n then [CHR 0x5C, CHR ''x'', hex_digit (n div 16), hex_digit n]
      else [c])"

definition bytes_repr :: "string \<Rightarrow> string" where
  "bytes_repr b =
     (let q = (if CHR 0x27 \<in> set b \<and> CHR 0x22 \<notin> set b
               then CHR 0x22 else CHR 0x27)
      in CHR ''b'' # q # concat (map (bytes_repr_char q) b) @ [q])"

subsection \<open>\<open>hashlib.sha1(...).hexdigest()\<close>\<close>

text \<open>
  SHA-1 over a byte string, with 32-bit words as integers reduced modulo \<open>2 ^ 32\<close>:
  padding to a multiple of 64 bytes, big-endian words, the message schedule of 80 words
  (kept newest first), 80 rounds per block, and the digest as 40 lower-case hex digits.
\<close>

definition m32 :: "int \<Rightarrow> int" where
  "m32 x = x mod 4294967296"

definition rotl :: "nat \<Rightarrow> int \<Rightarrow> int" where
  "rotl n x = m32 (x * 2 ^ n) + x div 2 ^ (32 - n)"

definition sha1_pad :: "string \<Rightarrow> int list" where
  "sha1_pad m =
     (let l = length m;
          k = (119 - l mod 64) mod 64
      in map (\<lambda>c. of_char c) m @ [128] @ replicate k 0 @
         map (\<lambda>i. (8 * int l) div 256 ^ i mod 256) (rev [0..<8]))"

fun be32 :: "int list \<Rightarrow> int list" where
  "be32 (a # b # c # d # rest) = (((a * 256 + b) * 256 + c) * 256 + d) # be32 rest"
| "be32 _ = []"

fun chunks16 :: "nat \<Rightarrow> int list \<Rightarrow> int list list" where
  "chunks16 0 ws = []"
| "chunks16 (Suc n) ws = (if ws = [] then [] else take 16 ws # chunks16 n (drop 16 ws))"

fun sha1_expand :: "nat \<Rightarrow> int list \<Rightarrow> int list" where
  "sha1_expand 0 w = w"
| "sha1_expand (Suc n) w =
     sha1_expand n (rotl 1 (w ! 2 XOR w ! 7 XOR w ! 13 XOR w ! 15) # w)"

definition sha1_f :: "nat \<Rightarrow> int \<Rightarrow> int \<Rightarrow> int \<Rightarrow> int" where
  "sha1_f t b c d =
     (if t < 20 then (b AND c) OR ((b XOR 4294967295) AND d)
      else if t < 40 then b XOR c XOR d
      else if t < 60 then (b AND c) OR (b AND d) OR (c AND d)
      else b XOR c XOR d)"

definition sha1_k :: "nat \<Rightarrow> int" where
  "sha1_k t =
     (if t < 20 then 0x5A827999 else if t < 40 then 0x6ED9EBA1
      else if t < 60 then 0x8F1BBCDC else 0xCA62C1D6)"

type_synonym sha_state = "int \<times> int \<times> int \<times> int \<times> int"

fun sha1_rounds :: "nat \<Rightarrow> int list \<Rightarrow> sha_state \<Rightarrow> sha_state" where
  "sha1_rounds t [] s = s"
| "sha1_rounds t (w # ws) (a, b, c, d, e) =
     sha1_rounds (Suc t) ws
       (m32 (rotl 5 a + sha1_f t b c d + e + sha1_k t + w), a, rotl 30 b, c, d)"

definition sha1_block :: "sha_state \<Rightarrow> int list \<Rightarrow> sha_state" where
  "sha1_block h ws =
     (case h of (h0, h1, h2, h3, h4) \<Rightarrow>
        (case sha1_rounds 0 (rev (sha1_expand 64 (rev ws))) h of (a, b, c, d, e) \<Rightarrow>
           (m32 (h0 + a), m32 (h1 + b), m32 (h2 + c), m32 (h3 + d), m32 (h4 + e))))"

definition hex32 :: "int \<Rightarrow> string" where
  "hex32 w = map (\<lambda>i. hex_digit (w div 16 ^ i)) (rev [0..<8])"

definition sha1_hexdigest :: "string \<Rightarrow> string" where
  "sha1_hexdigest m =
     (let ws = be32 (sha1_pad m) in
      case foldl sha1_block (0x67452301, 0xEFCDAB89, 0x98BADCFE, 0x10325476, 0xC3D2E1F0)
             (chunks16 (length ws) ws) of
        (h0, h1, h2, h3, h4) \<Rightarrow> hex32 h0 @ hex32 h1 @ hex32 h2 @ hex32 h3 @ hex32 h4)"

section \<open>The result envelope: class \<open>Effect\<close>\<close>

text \<open>
  An instance of \<open>Effect\<close> has up to three attributes. An attribute that was never
  assigned is \<open>None\<close> here; an attribute assigned Python's \<open>None\<close> is \<open>Some PNone\<close>.
\<close>

record effect =
  data :: "pyval option"
  error :: "pyval option"
  warning :: "pyval option"

definition effect_val :: "effect \<Rightarrow> pyval" where
  "effect_val e = PEffect (data e) (error e) (warning e)"

definition err_dict :: "pyval \<Rightarrow> pyval \<Rightarrow> pyval" where
  "err_dict c m = PDict [(PStr ''code'', c), (PStr ''msg'', m)]"

definition is_effect :: "pyval \<Rightarrow> bool" where
  "is_effect v = (case v of PEffect a b c \<Rightarrow> True | _ \<Rightarrow> False)"

text \<open>
  The chain of \<open>isinstance\<close> tests of \<open>Effect.__init__\<close> on its \<open>error\<close> argument, in the
  order of the source; the result is the attribute to set, if any. \<open>bool\<close> is a subclass
  of \<open>int\<close>. A tuple is indexed at 0 and 1. For an exception whose first argument is not
  an \<open>Effect\<close>, the source assigns the attribute and then, when there is a second argument,
  evaluates \<open>dErr['msg'] = error.args[1]\<close>, where \<open>dErr\<close> is not defined.
\<close>

fun Effect_init_error :: "pyval \<Rightarrow> pyval option result" where
  "Effect_init_error PNone = Inr None"
| "Effect_init_error (PInt n) = Inr (Some (err_dict (PInt n) (PStr [])))"
| "Effect_init_error (PBool b) = Inr (Some (err_dict (PBool b) (PStr [])))"
| "Effect_init_error (PStr s) = Inr (Some (err_dict (PInt 0) (PStr s)))"
| "Effect_init_error (PTuple xs) =
     (case xs of
        c # m # _ \<Rightarrow> Inr (Some (err_dict c m))
      | _ \<Rightarrow> Inl (IndexError, []))"
| "Effect_init_error (PDict d) = Inr (Some (PDict d))"
| "Effect_init_error (PExc cls args) =
     (case args of
        [] \<Rightarrow> Inl (IndexError, [])
      | PEffect d e w # _ \<Rightarrow>
          (case e of None \<Rightarrow> Inl (AttributeError, []) | Some x \<Rightarrow> Inr (Some x))
      | a # rest \<Rightarrow>
          if length args > 1 then Inl (NameError, [])
          else Inr (Some (err_dict a (PStr []))))"
| "Effect_init_error _ = Inl (ValueError, [PStr ''error''])"

text \<open>
  \<open>data\<close> and \<open>warning\<close> are stored when they are not \<open>None\<close>. An exception raised
  for the \<open>error\<close> argument leaves no object behind.
\<close>

definition present :: "pyval \<Rightarrow> pyval option" where
  "present v = (if v \<noteq> PNone then Some v else None)"

definition Effect_init :: "pyval \<Rightarrow> pyval \<Rightarrow> pyval \<Rightarrow> effect result" where
  "Effect_init d e w =
     (case Effect_init_error e of
        Inl x \<Rightarrow> Inl x
      | Inr err \<Rightarrow> Inr \<lparr>data = present d, error = err, warning = present w\<rparr>)"

text \<open>
  \<open>__str__\<close> builds the dict \<open>dRet\<close> from the attributes that exist and hands it to
  \<open>json.dumps\<close>. The JSON library is a parameter: \<open>dumps\<close> returns the text or raises,
  \<open>loads\<close> returns the decoded value or raises a \<open>ValueError\<close> whose \<open>str()\<close> is given.
\<close>

definition Effect_dRet :: "effect \<Rightarrow> pyval" where
  "Effect_dRet e =
     PDict ((case data e of None \<Rightarrow> [] | Some v \<Rightarrow> [(PStr ''data'', v)]) @
            (case error e of None \<Rightarrow> [] | Some v \<Rightarrow> [(PStr ''error'', v)]) @
            (case warning e of None \<Rightarrow> [] | Some v \<Rightarrow> [(PStr ''warning'', v)]))"

definition Effect_str :: "(pyval \<Rightarrow> string result) \<Rightarrow> effect \<Rightarrow> string result" where
  "Effect_str dumps e = dumps (Effect_dRet e)"

definition dataExists :: "effect \<Rightarrow> bool" where
  "dataExists e = (case data e of None \<Rightarrow> False | Some v \<Rightarrow> v \<noteq> PNone)"

definition errorExists :: "effect \<Rightarrow> bool" where
  "errorExists e = (case error e of None \<Rightarrow> False | Some v \<Rightarrow> v \<noteq> PNone)"

definition warningExists :: "effect \<Rightarrow> bool" where
  "warningExists e = (case warning e of None \<Rightarrow> False | Some v \<Rightarrow> v \<noteq> PNone)"

text \<open>
  \<open>fromDict\<close> subscripts its argument with the three keys and skips a \<open>KeyError\<close>; a
  value that is not a dict cannot be subscripted with a string, which is a \<open>TypeError\<close>.
\<close>

definition Effect_fromDict :: "pyval \<Rightarrow> effect result" where
  "Effect_fromDict val =
     (case val of
        PDict kvs \<Rightarrow>
          Inr \<lparr>data = map_of kvs (PStr ''data''),
               error = map_of kvs (PStr ''error''),
               warning = map_of kvs (PStr ''warning'')\<rparr>
      | _ \<Rightarrow> Inl (TypeError, []))"

definition Effect_fromJSON :: "(string \<Rightarrow> string + pyval) \<Rightarrow> string \<Rightarrow> effect result" where
  "Effect_fromJSON loads val =
     (case loads val of
        Inl msg \<Rightarrow> Inl (ValueError, [PStr ''val'', PStr msg])
      | Inr d \<Rightarrow> Effect_fromDict d)"

text \<open>
  \<open>EffectException.__init__\<close> constructs the \<open>Effect\<close> and passes it to \<open>Exception\<close>:
  the new exception, unless the construction of the \<open>Effect\<close> raises.
\<close>

definition EffectException_init :: "pyval \<Rightarrow> pyval \<Rightarrow> pyval \<Rightarrow> exn result" where
  "EffectException_init d e w =
     (case Effect_init d e w of
        Inl x \<Rightarrow> Inl x
      | Inr eff \<Rightarrow> Inr (EffectException, [effect_val eff]))"

section \<open>The dispatch contract: class \<open>Service\<close>\<close>

definition is_sep :: "char \<Rightarrow> bool" where
  "is_sep c = (c = CHR ''/'' \<or> c = CHR ''_'')"

text \<open>
  The \<open>while\<close> loop of \<open>pathToMethod\<close>, with the index \<open>i\<close> and the string built so far.
  After a separator the index is advanced and \<open>path[i]\<close> is read without a test: beyond
  the end this is an \<open>IndexError\<close>.
\<close>

function pathToMethod_loop :: "string \<Rightarrow> nat \<Rightarrow> string \<Rightarrow> string result" where
  "pathToMethod_loop path i sRet =
     (if i < length path then
        (if is_sep (path ! i) then
           (if Suc i < length path
            then pathToMethod_loop path (Suc (Suc i)) (sRet @ [upper_char (path ! Suc i)])
            else Inl (IndexError, []))
         else pathToMethod_loop path (Suc i) (sRet @ [path ! i]))
      else Inr sRet)"
  by pat_completeness auto
termination
  by (relation "measure (\<lambda>(path, i, sRet). length path - i)") auto

declare pathToMethod_loop.simps [simp del]

definition pathToMethod :: "string \<Rightarrow> string \<Rightarrow> string result" where
  "pathToMethod path append' =
     (case pathToMethod_loop path 0 [] of
        Inl x \<Rightarrow> Inl x
      | Inr sRet \<Rightarrow> Inr (sRet @ append'))"

text \<open>
  The rule in the words of the specification, read as one scan from left to right: a
  separator is dropped and the character after it is upper-cased; every other character
  passes through; a separator with no character after it has no result.
\<close>

fun path_scan :: "string \<Rightarrow> string option" where
  "path_scan [] = Some []"
| "path_scan [c] = (if is_sep c then None else Some [c])"
| "path_scan (c # d # cs) =
     (if is_sep c then map_option (\<lambda>r. upper_char d # r) (path_scan cs)
      else map_option (\<lambda>r. c # r) (path_scan (d # cs)))"

text \<open>
  Modelled from the spec: the module \<open>Errors\<close> of the package is not among the sources;
  it is a table of named integer constants, taken as a parameter.
\<close>

record errors_table =
  SERVICE_ACTION :: int
  SERVICE_STATUS :: int
  SERVICE_CONTENT_TYPE :: int
  SERVICE_UNREACHABLE :: int
  SERVICE_NOT_REGISTERED :: int
  SERVICE_NO_SUCH_NOUN :: int

text \<open>
  Modelled from the spec: the module \<open>Sesh\<close> of the package is not among the sources; a
  session is an object with an accessor \<open>id()\<close> that returns its identifier, and is given
  here by that string. An argument \<open>sesh\<close> is \<open>None\<close> or a session.
\<close>

type_synonym session = string

text \<open>
  The four verbs of \<open>Service\<close> differ in the suffix of the method name and in the verb of
  the message only. The methods of the instance are a map from names to handlers; a handler
  gets the data and the session, if there is one. An \<open>EffectException\<close> raised by the
  handler is caught and its first argument returned.
\<close>

type_synonym handler = "pyval \<Rightarrow> session option \<Rightarrow> effect result"

definition Service_verb ::
  "errors_table \<Rightarrow> string \<Rightarrow> string \<Rightarrow> (string \<rightharpoonup> handler) \<Rightarrow> string \<Rightarrow> pyval \<Rightarrow> session option
     \<Rightarrow> effect result" where
  "Service_verb E suffix verb methods path d sesh =
     (case pathToMethod path suffix of
        Inl x \<Rightarrow> Inl x
      | Inr sMethod \<Rightarrow>
          (case methods sMethod of
             None \<Rightarrow>
               Effect_init PNone
                 (PTuple [PInt (SERVICE_NO_SUCH_NOUN E), PStr (verb @ '' '' @ path)]) PNone
           | Some f \<Rightarrow>
               (case f d sesh of
                  Inl (cls, args) \<Rightarrow>
                    (case (cls, args) of
                       (EffectException, PEffect a b c # _) \<Rightarrow>
                         Inr \<lparr>data = a, error = b, warning = c\<rparr>
                     | _ \<Rightarrow> Inl (cls, args))
                | Inr r \<Rightarrow> Inr r)))"

definition Service_create ::
  "errors_table \<Rightarrow> (string \<rightharpoonup> handler) \<Rightarrow> string \<Rightarrow> pyval \<Rightarrow> session option \<Rightarrow> effect result" where
  "Service_create E methods path d sesh = Service_verb E ''_create'' ''POST'' methods path d sesh"

definition Service_delete ::
  "errors_table \<Rightarrow> (string \<rightharpoonup> handler) \<Rightarrow> string \<Rightarrow> pyval \<Rightarrow> session option \<Rightarrow> effect result" where
  "Service_delete E methods path d sesh = Service_verb E ''_delete'' ''DELETE'' methods path d sesh"

definition Service_read ::
  "errors_table \<Rightarrow> (string \<rightharpoonup> handler) \<Rightarrow> string \<Rightarrow> pyval \<Rightarrow> session option \<Rightarrow> effect result" where
  "Service_read E methods path d sesh = Service_verb E ''_read'' ''GET'' methods path d sesh"

definition Service_update ::
  "errors_table \<Rightarrow> (string \<rightharpoonup> handler) \<Rightarrow> string \<Rightarrow> pyval \<Rightarrow> session option \<Rightarrow> effect result" where
  "Service_update E methods path d sesh = Service_verb E ''_update'' ''PUT'' methods path d sesh"

text \<open>The hook \<open>initialise\<close> of the base class returns the instance itself.\<close>

definition Service_initialise :: "'h \<Rightarrow> 'h result" where
  "Service_initialise self = Inr self"

section \<open>The registry and the router\<close>

text \<open>
  The globals of the module: the verbose flag, the registered services and the salt.
  An entry of \<open>__mdRegistered\<close> is the dict \<open>{"instance": v}\<close> or the dict
  \<open>{"url": u}\<close>. Service instances are values of a type \<open>'h\<close>; what their methods do is
  given by functions on \<open>'h\<close>.
\<close>

datatype 'h registration = Instance 'h | Url string

record 'h state =
  mbVerbose :: bool
  mdRegistered :: "string \<rightharpoonup> 'h registration"
  msSalt :: "string option"

definition funcToRequest :: "string \<rightharpoonup> string" where
  "funcToRequest =
     map_of [(''create'', ''POST''), (''delete'', ''DELETE''), (''read'', ''GET''),
             (''update'', ''PUT'')]"

definition verbose :: "'h state \<Rightarrow> bool \<Rightarrow> 'h state" where
  "verbose st flag = st\<lparr>mbVerbose := flag\<rparr>"

subsection \<open>\<open>register\<close>\<close>

text \<open>
  The argument \<open>services\<close> is a dict or something else; a value of the dict is an instance
  of \<open>Service\<close>, \<open>None\<close>, or something else. \<open>restconf\<close> maps a name to a dict with the
  key \<open>url\<close>. The function \<open>init\<close> is the method \<open>initialise\<close> of an instance. The loop
  over \<open>services.items()\<close> changes the registry as it goes, so the result is the state
  reached together with the exception raised, if any.
\<close>

datatype 'h binding = BService 'h | BNone | BOther pyval

datatype 'h services_arg = ServicesDict "(string \<times> 'h binding) list" | ServicesOther pyval

type_synonym restconf = "(string \<times> (string \<times> string) list) list"

fun register_items ::
  "('h \<Rightarrow> 'h result) \<Rightarrow> restconf \<Rightarrow> 'h state \<Rightarrow> (string \<times> 'h binding) list
     \<Rightarrow> 'h state \<times> exn option" where
  "register_items init rc st [] = (st, None)"
| "register_items init rc st ((k, v) # rest) =
     (case v of
        BService h \<Rightarrow>
          (let st' = st\<lparr>mdRegistered := (mdRegistered st)(k \<mapsto> Instance h)\<rparr> in
           case init h of
             Inl x \<Rightarrow> (st', Some x)
           | Inr _ \<Rightarrow> register_items init rc st' rest)
      | BNone \<Rightarrow>
          (case map_of rc k of
             None \<Rightarrow> (st, Some (ValueError, [PStr (''services.'' @ k)]))
           | Some conf \<Rightarrow>
               (case map_of conf ''url'' of
                  None \<Rightarrow> (st, Some (KeyError, [PStr ''url'']))
                | Some u \<Rightarrow>
                    register_items init rc
                      (st\<lparr>mdRegistered := (mdRegistered st)(k \<mapsto> Url u)\<rparr>) rest))
      | BOther x \<Rightarrow> (st, Some (ValueError, [PStr (''services.'' @ k)])))"

definition register ::
  "('h \<Rightarrow> 'h result) \<Rightarrow> 'h state \<Rightarrow> 'h services_arg \<Rightarrow> restconf \<Rightarrow> string
     \<Rightarrow> 'h state \<times> exn option" where
  "register init st services rc salt =
     (let st' = st\<lparr>msSalt := Some salt\<rparr> in
      case services of
        ServicesOther x \<Rightarrow> (st', Some (ValueError, [PStr ''services'']))
      | ServicesDict items \<Rightarrow> register_items init rc st' items)"

text \<open>
  Two predicates on a binding, to state what \<open>register\<close> does with it: the binding is
  registered without an exception (an instance whose hook returns, or \<open>None\<close> with an
  entry in \<open>restconf\<close> that has a \<open>url\<close>), and the binding raises \<open>ValueError\<close>
  (\<open>None\<close> without an entry in \<open>restconf\<close>, or a value of another shape).
\<close>

definition binding_ok :: "('h \<Rightarrow> 'h result) \<Rightarrow> restconf \<Rightarrow> string \<times> 'h binding \<Rightarrow> bool" where
  "binding_ok init rc b =
     (case snd b of
        BService h \<Rightarrow> (case init h of Inl x \<Rightarrow> False | Inr r \<Rightarrow> True)
      | BNone \<Rightarrow>
          (case map_of rc (fst b) of
             None \<Rightarrow> False
           | Some conf \<Rightarrow> map_of conf ''url'' \<noteq> None)
      | BOther x \<Rightarrow> False)"

definition binding_invalid :: "restconf \<Rightarrow> string \<times> 'h binding \<Rightarrow> bool" where
  "binding_invalid rc b =
     (case snd b of
        BService h \<Rightarrow> False
      | BNone \<Rightarrow> map_of rc (fst b) = None
      | BOther x \<Rightarrow> True)"

subsection \<open>\<open>__request\<close> and the four public calls\<close>

text \<open>
  What lies outside the module: the table of error codes, the JSON library, the HTTP
  library and the methods of the local instances. \<open>http_call verb url body headers\<close> is the
  function \<open>requests.post\<close>, \<open>.get\<close>, \<open>.put\<close> or \<open>.delete\<close> named by the verb: it raises
  \<open>requests.ConnectionError\<close> (given by its \<open>str()\<close>), raises something else, or returns a
  response. \<open>invoke h action path data sesh\<close> is \<open>getattr(h, action)(path, data, sesh)\<close>.
  The headers of a response are looked up without regard to case, \<open>content\<close> is the body
  as \<open>bytes\<close> and \<open>body_text\<close> is the attribute \<open>text\<close>, the body decoded.
\<close>

record response =
  status_code :: int
  content :: string
  body_text :: string
  headers :: "(string \<times> string) list"

datatype http_outcome = ConnectionFailed string | Raises exn | Response response

record 'h world =
  Errors :: errors_table
  json_dumps :: "pyval \<Rightarrow> string result"
  json_loads :: "string \<Rightarrow> string + pyval"
  http_call :: "string \<Rightarrow> string \<Rightarrow> string \<Rightarrow> (string \<times> string) list \<Rightarrow> http_outcome"
  invoke :: "'h \<Rightarrow> string \<Rightarrow> string \<Rightarrow> pyval \<Rightarrow> session option \<Rightarrow> effect result"

definition header_get :: "(string \<times> string) list \<Rightarrow> string \<Rightarrow> string option" where
  "header_get hs name = map_of (map (\<lambda>(k, v). (str_lower k, v)) hs) (str_lower name)"

text \<open>
  The end of \<open>__request\<close>: in verbose mode the effect is printed, which calls its
  \<open>__str__\<close>; then it is returned.
\<close>

definition verbose_return :: "'h world \<Rightarrow> 'h state \<Rightarrow> effect \<Rightarrow> effect result" where
  "verbose_return W st oEffect =
     (if mbVerbose st
      then (case Effect_str (json_dumps W) oEffect of Inl x \<Rightarrow> Inl x | Inr _ \<Rightarrow> Inr oEffect)
      else Inr oEffect)"

text \<open>
  The branch for a service that runs elsewhere. The first statement looks the action up and,
  on a \<open>KeyError\<close>, constructs an \<open>Effect\<close> that is neither returned nor stored:
  execution goes on. With an unknown action the next look-up of \<open>__funcToRequest[action]\<close>
  raises \<open>KeyError\<close>: in the verbose print, or else in the call of the HTTP function, which
  stands in a \<open>try\<close> that catches \<open>requests.ConnectionError\<close> only.
\<close>

definition request_remote ::
  "'h world \<Rightarrow> 'h state \<Rightarrow> string \<Rightarrow> string \<Rightarrow> string \<Rightarrow> pyval \<Rightarrow> session option
     \<Rightarrow> effect result" where
  "request_remote W st url action path d sesh =
     (let discarded =
            (case funcToRequest action of
               None \<Rightarrow>
                 Some (Effect_init PNone
                         (PTuple [PInt (SERVICE_ACTION (Errors W)), PStr action]) PNone)
             | Some _ \<Rightarrow> None);
          sURL = url @ path
      in
      if mbVerbose st \<and> funcToRequest action = None then Inl (KeyError, [PStr action])
      else
        (case json_dumps W d of
           Inl x \<Rightarrow> Inl x
         | Inr sData \<Rightarrow>
             (let dHeaders =
                    [(''Content-Type'', ''application/json; charset=utf-8''),
                     (''Content-Length'', py_str_int (int (length sData)))] @
                    (case sesh of None \<Rightarrow> [] | Some sid \<Rightarrow> [(''Authorization'', sid)])
              in
              case funcToRequest action of
                None \<Rightarrow> Inl (KeyError, [PStr action])
              | Some verb \<Rightarrow>
                  (case http_call W verb sURL sData dHeaders of
                     ConnectionFailed msg \<Rightarrow>
                       Effect_init PNone
                         (PTuple [PInt (SERVICE_UNREACHABLE (Errors W)), PStr msg]) PNone
                   | Raises x \<Rightarrow> Inl x
                   | Response oRes \<Rightarrow>
                       if status_code oRes \<noteq> 200 then
                         Effect_init PNone
                           (PTuple [PInt (SERVICE_STATUS (Errors W)),
                                    PStr (py_str_int (status_code oRes) @ '': '' @
                                          bytes_repr (content oRes))]) PNone
                       else
                         (case header_get (headers oRes) ''Content-Type'' of
                            None \<Rightarrow> Inl (KeyError, [PStr ''content-type''])
                          | Some ct \<Rightarrow>
                              if str_lower ct \<noteq> ''application/json; charset=utf-8'' then
                                Effect_init PNone
                                  (PTuple [PInt (SERVICE_CONTENT_TYPE (Errors W)), PStr ct])
                                  PNone
                              else
                                (case Effect_fromJSON (json_loads W) (body_text oRes) of
                                   Inl x \<Rightarrow> Inl x
                                 | Inr oEffect \<Rightarrow> verbose_return W st oEffect))))))"

definition request ::
  "'h world \<Rightarrow> 'h state \<Rightarrow> string \<Rightarrow> string \<Rightarrow> string \<Rightarrow> pyval \<Rightarrow> session option
     \<Rightarrow> effect result" where
  "request W st service action path d sesh =
     (case mdRegistered st service of
        Some (Instance h) \<Rightarrow>
          (case invoke W h action path d sesh of
             Inl x \<Rightarrow> Inl x
           | Inr oEffect \<Rightarrow> verbose_return W st oEffect)
      | Some (Url url) \<Rightarrow> request_remote W st url action path d sesh
      | None \<Rightarrow>
          (case EffectException_init PNone
                  (PTuple [PInt (SERVICE_NOT_REGISTERED (Errors W)), PStr service]) PNone of
             Inl x \<Rightarrow> Inl x
           | Inr x \<Rightarrow> Inl x))"

definition create ::
  "'h world \<Rightarrow> 'h state \<Rightarrow> string \<Rightarrow> string \<Rightarrow> pyval \<Rightarrow> session option \<Rightarrow> effect result" where
  "create W st service path d sesh = request W st service ''create'' path d sesh"

definition delete ::
  "'h world \<Rightarrow> 'h state \<Rightarrow> string \<Rightarrow> string \<Rightarrow> pyval \<Rightarrow> session option \<Rightarrow> effect result" where
  "delete W st service path d sesh = request W st service ''delete'' path d sesh"

definition read ::
  "'h world \<Rightarrow> 'h state \<Rightarrow> string \<Rightarrow> string \<Rightarrow> pyval \<Rightarrow> session option \<Rightarrow> effect result" where
  "read W st service path d sesh = request W st service ''read'' path d sesh"

definition update ::
  "'h world \<Rightarrow> 'h state \<Rightarrow> string \<Rightarrow> string \<Rightarrow> pyval \<Rightarrow> session option \<Rightarrow> effect result" where
  "update W st service path d sesh = request W st service ''update'' path d sesh"

subsection \<open>\<open>internalKey\<close>\<close>

text \<open>
  \<open>iTime\<close> is \<open>int(time())\<close>. Without a key the function returns a new key; the salt is
  used outside any \<open>try\<close>, so a salt that was never set raises \<open>AttributeError\<close>. With a
  key, every exception (a split into other than two parts, a time that is not a number, a
  missing salt) is caught and the answer is \<open>False\<close>. The one test on the time is
  \<open>iTime - int(sTime) > 5\<close>.
\<close>

definition key_digest :: "string \<Rightarrow> string \<Rightarrow> string" where
  "key_digest salt sTime = sha1_hexdigest (drop 5 sTime @ salt @ take 5 sTime)"

definition internalKey :: "'h state \<Rightarrow> int \<Rightarrow> string option \<Rightarrow> pyval result" where
  "internalKey st iTime key =
     (case key of
        None \<Rightarrow>
          (let sTime = py_str_int iTime in
           case msSalt st of
             None \<Rightarrow> Inl (AttributeError, [])
           | Some salt \<Rightarrow> Inr (PStr (key_digest salt sTime @ '':'' @ sTime)))
      | Some k \<Rightarrow>
          (case split_on CHR '':'' k of
             [sSHA1', sTime] \<Rightarrow>
               (case py_int sTime of
                  None \<Rightarrow> Inr (PBool False)
                | Some t \<Rightarrow>
                    if iTime - t > 5 then Inr (PBool False)
                    else
                      (case msSalt st of
                         None \<Rightarrow> Inr (PBool False)
                       | Some salt \<Rightarrow> Inr (PBool (key_digest salt sTime = sSHA1'))))
           | _ \<Rightarrow> Inr (PBool False)))"

section \<open>The JSON library\<close>

text \<open>
  \<open>json.dumps\<close> and \<open>json.loads\<close> are parameters of the functions above. This section
  models them on the values of this theory, to state what JSON-representable means and to
  run the functions on concrete inputs. \<open>py_json_dumps\<close> writes what \<open>json.dumps\<close> writes
  with its default arguments: \<open>null\<close>, \<open>true\<close>, \<open>false\<close>, integers in decimal, strings in
  double quotes with the escapes of the library, lists and tuples as arrays, dicts as objects
  whose keys are strings (a key that is an integer, a boolean or \<open>None\<close> is written as its
  text), with \<open>, \<close> and \<open>: \<close> as separators; any other value raises \<open>TypeError\<close>.
  \<open>py_json_loads\<close> reads such a text back, with white space allowed between the tokens; of
  two members with the same key the later one gives the value. Numbers that are not
  integers are outside the model, and the message of a decoding error is not that of the
  library. The parser counts down a bound on the nesting that starts above the length of
  the text.
\<close>

definition dq :: char where
  "dq = CHR 0x22"

definition bsl :: char where
  "bsl = CHR 0x5C"

definition json_escape_char :: "char \<Rightarrow> string" where
  "json_escape_char c =
     (let n = (of_char c :: int) in
      if n = 34 then [bsl, dq]
      else if n = 92 then [bsl, bsl]
      else if n = 10 then [bsl, CHR ''n'']
      else if n = 13 then [bsl, CHR ''r'']
      else if n = 9 then [bsl, CHR ''t'']
      else if n = 8 then [bsl, CHR ''b'']
      else if n = 12 then [bsl, CHR ''f'']
      else if n < 32 then [bsl, CHR ''u'', CHR ''0'', CHR ''0'', hex_digit (n div 16), hex_digit n]
      else [c])"

definition json_quote :: "string \<Rightarrow> string" where
  "json_quote s = dq # concat (map json_escape_char s) @ [dq]"

definition json_key :: "pyval \<Rightarrow> string option" where
  "json_key k =
     (case k of
        PStr s \<Rightarrow> Some s
      | PInt i \<Rightarrow> Some (py_str_int i)
      | PBool b \<Rightarrow> Some (if b then ''true'' else ''false'')
      | PNone \<Rightarrow> Some ''null''
      | _ \<Rightarrow> None)"

fun dumps_val :: "pyval \<Rightarrow> string option"
  and dumps_list :: "pyval list \<Rightarrow> string option"
  and dumps_items :: "(pyval \<times> pyval) list \<Rightarrow> string option"
  and dumps_item :: "pyval \<times> pyval \<Rightarrow> string option" where
  "dumps_val PNone = Some ''null''"
| "dumps_val (PBool b) = Some (if b then ''true'' else ''false'')"
| "dumps_val (PInt i) = Some (py_str_int i)"
| "dumps_val (PStr s) = Some (json_quote s)"
| "dumps_val (PTuple xs) = map_option (\<lambda>s. ''['' @ s @ '']'') (dumps_list xs)"
| "dumps_val (PList xs) = map_option (\<lambda>s. ''['' @ s @ '']'') (dumps_list xs)"
| "dumps_val (PDict kvs) = map_option (\<lambda>s. ''{'' @ s @ ''}'') (dumps_items kvs)"
| "dumps_val (PBytes b) = None"
| "dumps_val (PExc c a) = None"
| "dumps_val (PEffect a b c) = None"
| "dumps_val (PObject c) = None"
| "dumps_list [] = Some []"
| "dumps_list (x # xs) =
     (case dumps_val x of
        None \<Rightarrow> None
      | Some s \<Rightarrow>
          (case dumps_list xs of
             None \<Rightarrow> None
           | Some r \<Rightarrow> Some (if xs = [] then s else s @ '', '' @ r)))"
| "dumps_items [] = Some []"
| "dumps_items (kv # kvs) =
     (case dumps_item kv of
        None \<Rightarrow> None
      | Some s \<Rightarrow>
          (case dumps_items kvs of
             None \<Rightarrow> None
           | Some r \<Rightarrow> Some (if kvs = [] then s else s @ '', '' @ r)))"
| "dumps_item (k, v) =
     (case json_key k of
        None \<Rightarrow> None
      | Some ks \<Rightarrow> map_option (\<lambda>s. json_quote ks @ '': '' @ s) (dumps_val v))"

definition py_json_dumps :: "pyval \<Rightarrow> string result" where
  "py_json_dumps v = (case dumps_val v of None \<Rightarrow> Inl (TypeError, []) | Some s \<Rightarrow> Inr s)"

definition json_ws :: "char \<Rightarrow> bool" where
  "json_ws c = (let n = (of_char c :: int) in n = 32 \<or> n = 9 \<or> n = 10 \<or> n = 13)"

definition skip_ws :: "string \<Rightarrow> string" where
  "skip_ws s = dropWhile json_ws s"

definition hex_val :: "char \<Rightarrow> int option" where
  "hex_val c =
     (let n = (of_char c :: int) in
      if 48 \<le> n \<and> n \<le> 57 then Some (n - 48)
      else if 97 \<le> n \<and> n \<le> 102 then Some (n - 87)
      else if 65 \<le> n \<and> n \<le> 70 then Some (n - 55)
      else None)"

definition unescape :: "char \<Rightarrow> char option" where
  "unescape e =
     (if e = dq then Some dq
      else if e = bsl then Some bsl
      else if e = CHR ''/'' then Some CHR ''/''
      else if e = CHR ''n'' then Some (CHR 0x0A)
      else if e = CHR ''r'' then Some (CHR 0x0D)
      else if e = CHR ''t'' then Some (CHR 0x09)
      else if e = CHR ''b'' then Some (CHR 0x08)
      else if e = CHR ''f'' then Some (CHR 0x0C)
      else None)"

fun parse_str :: "string \<Rightarrow> (string \<times> string) option" where
  "parse_str [] = None"
| "parse_str (c # cs) =
     (if c = dq then Some ([], cs)
      else if c = bsl then
        (case cs of
           [] \<Rightarrow> None
         | e # r \<Rightarrow>
             if e = CHR ''u'' then
               (case r of
                  a # b # x # y # r' \<Rightarrow>
                    (case (hex_val a, hex_val b, hex_val x, hex_val y) of
                       (Some z, Some z', Some h, Some l) \<Rightarrow>
                         if z = 0 \<and> z' = 0 \<and> 16 * h + l < 128
                         then map_option (\<lambda>(s, t). (char_of (16 * h + l) # s, t)) (parse_str r')
                         else None
                     | _ \<Rightarrow> None)
                | _ \<Rightarrow> None)
             else
               (case unescape e of
                  None \<Rightarrow> None
                | Some ch \<Rightarrow> map_option (\<lambda>(s, t). (ch # s, t)) (parse_str r)))
      else if (of_char c :: int) < 32 then None
      else map_option (\<lambda>(s, t). (c # s, t)) (parse_str cs))"

definition parse_num :: "string \<Rightarrow> (pyval \<times> string) option" where
  "parse_num s =
     (let neg = (s \<noteq> [] \<and> hd s = CHR ''-'');
          r = (if neg then tl s else s);
          ds = takeWhile is_digit r;
          rest = dropWhile is_digit r
      in if ds = [] \<or> (length ds > 1 \<and> hd ds = CHR ''0'') then None
         else if rest \<noteq> [] \<and> hd rest \<in> set ''.eE'' then None
         else map_option (\<lambda>n. (PInt (if neg then - n else n), rest))
                (parse_dec False 0 ds))"

definition dict_cons :: "pyval \<Rightarrow> pyval \<Rightarrow> (pyval \<times> pyval) list \<Rightarrow> (pyval \<times> pyval) list" where
  "dict_cons k v m =
     (case map_of m k of
        None \<Rightarrow> (k, v) # m
      | Some v' \<Rightarrow> (k, v') # filter (\<lambda>kv. fst kv \<noteq> k) m)"

definition strip_prefix :: "string \<Rightarrow> string \<Rightarrow> string option" where
  "strip_prefix p s = (if take (length p) s = p then Some (drop (length p) s) else None)"

fun parse_value :: "nat \<Rightarrow> string \<Rightarrow> (pyval \<times> string) option"
  and parse_elems :: "nat \<Rightarrow> string \<Rightarrow> (pyval list \<times> string) option"
  and parse_members :: "nat \<Rightarrow> string \<Rightarrow> ((pyval \<times> pyval) list \<times> string) option" where
  "parse_value 0 s = None"
| "parse_value (Suc n) s =
     (case skip_ws s of
        [] \<Rightarrow> None
      | c # r \<Rightarrow>
          if c = CHR ''{'' then
            (case skip_ws r of
               [] \<Rightarrow> None
             | c' # r' \<Rightarrow>
                 if c' = CHR ''}'' then Some (PDict [], r')
                 else map_option (\<lambda>(m, t). (PDict m, t)) (parse_members n (c' # r')))
          else if c = CHR ''['' then
            (case skip_ws r of
               [] \<Rightarrow> None
             | c' # r' \<Rightarrow>
                 if c' = CHR '']'' then Some (PList [], r')
                 else map_option (\<lambda>(vs, t). (PList vs, t)) (parse_elems n (c' # r')))
          else if c = dq then map_option (\<lambda>(x, t). (PStr x, t)) (parse_str r)
          else
            (case strip_prefix ''null'' (c # r) of
               Some t \<Rightarrow> Some (PNone, t)
             | None \<Rightarrow>
                 (case strip_prefix ''true'' (c # r) of
                    Some t \<Rightarrow> Some (PBool True, t)
                  | None \<Rightarrow>
                      (case strip_prefix ''false'' (c # r) of
                         Some t \<Rightarrow> Some (PBool False, t)
                       | None \<Rightarrow> parse_num (c # r)))))"
| "parse_elems 0 s = None"
| "parse_elems (Suc n) s =
     (case parse_value n s of
        None \<Rightarrow> None
      | Some (v, t) \<Rightarrow>
          (case skip_ws t of
             [] \<Rightarrow> None
           | c # r \<Rightarrow>
               if c = CHR '','' then map_option (\<lambda>(vs, u). (v # vs, u)) (parse_elems n r)
               else if c = CHR '']'' then Some ([v], r)
               else None))"
| "parse_members 0 s = None"
| "parse_members (Suc n) s =
     (case skip_ws s of
        [] \<Rightarrow> None
      | c # r \<Rightarrow>
          if c \<noteq> dq then None
          else
            (case parse_str r of
               None \<Rightarrow> None
             | Some (k, t) \<Rightarrow>
                 (case skip_ws t of
                    [] \<Rightarrow> None
                  | c' # r' \<Rightarrow>
                      if c' \<noteq> CHR '':'' then None
                      else
                        (case parse_value n r' of
                           None \<Rightarrow> None
                         | Some (v, u) \<Rightarrow>
                             (case skip_ws u of
                                [] \<Rightarrow> None
                              | c'' # r'' \<Rightarrow>
                                  if c'' = CHR '','' then
                                    map_option (\<lambda>(m, w). (dict_cons (PStr k) v m, w))
                                      (parse_members n r'')
                                  else if c'' = CHR ''}'' then Some ([(PStr k, v)], r'')
                                  else None)))))"

definition py_json_loads :: "string \<Rightarrow> string + pyval" where
  "py_json_loads s =
     (case parse_value (Suc (length s)) s of
        None \<Rightarrow> Inl ''Expecting value''
      | Some (v, rest) \<Rightarrow> if skip_ws rest = [] then Inr v else Inl ''Extra data'')"

text \<open>
  The values that JSON represents: \<open>None\<close>, booleans, integers, strings, lists of such
  values and dicts from distinct strings to such values. (A tuple is written as an array and
  read back as a list.)
\<close>

fun json_ok :: "pyval \<Rightarrow> bool"
  and json_ok_list :: "pyval list \<Rightarrow> bool"
  and json_ok_items :: "(pyval \<times> pyval) list \<Rightarrow> bool"
  and json_ok_item :: "pyval \<times> pyval \<Rightarrow> bool" where
  "json_ok PNone = True"
| "json_ok (PBool b) = True"
| "json_ok (PInt i) = True"
| "json_ok (PStr s) = True"
| "json_ok (PBytes b) = False"
| "json_ok (PTuple xs) = False"
| "json_ok (PList xs) = json_ok_list xs"
| "json_ok (PDict kvs) = json_ok_items kvs"
| "json_ok (PExc c a) = False"
| "json_ok (PEffect a b c) = False"
| "json_ok (PObject c) = False"
| "json_ok_list [] = True"
| "json_ok_list (x # xs) = (json_ok x \<and> json_ok_list xs)"
| "json_ok_items [] = True"
| "json_ok_items (kv # kvs) = (json_ok_item kv \<and> fst kv \<notin> fst ` set kvs \<and> json_ok_items kvs)"
| "json_ok_item (k, v) = ((case k of PStr s \<Rightarrow> True | _ \<Rightarrow> False) \<and> json_ok v)"

text \<open>
  Two notions for the parser: the characters that can follow a value in a text, and the
  characters a written value can start with.
\<close>

definition follow_ok :: "string \<Rightarrow> bool" where
  "follow_ok rest = (case rest of [] \<Rightarrow> True | c # r \<Rightarrow> c = CHR '','' \<or> c = CHR '']'' \<or> c = CHR ''}'')"

definition value_start :: "char \<Rightarrow> bool" where
  "value_start c = (c \<in> set ''ntf-0123456789[{'' \<or> c = dq)"

section \<open>A peer for concrete runs\<close>

text \<open>
  The theorems on the router hold for every JSON library, HTTP peer and table of error
  codes. For concrete runs: sample values for the error codes, and a peer that gives the same
  answer to every call.
\<close>

definition sample_errors :: errors_table where
  "sample_errors =
     \<lparr>SERVICE_ACTION = 200, SERVICE_STATUS = 201, SERVICE_CONTENT_TYPE = 202,
      SERVICE_UNREACHABLE = 203, SERVICE_NOT_REGISTERED = 204, SERVICE_NO_SUCH_NOUN = 205\<rparr>"

definition sample_world :: "http_outcome \<Rightarrow> nat world" where
  "sample_world answer =
     \<lparr>Errors = sample_errors,
      json_dumps = py_json_dumps,
      json_loads = py_json_loads,
      http_call = (\<lambda>verb url body hs. answer),
      invoke = (\<lambda>h action path d sesh. Inr \<lparr>data = Some d, error = None, warning = None\<rparr>)\<rparr>"

text \<open>A hook \<open>initialise\<close> that returns a replacement for its instance.\<close>

definition decorating_initialise :: "nat \<Rightarrow> nat result" where
  "decorating_initialise h = Inr (Suc h)"

text \<open>A hook \<open>initialise\<close> that raises.\<close>

definition failing_initialise :: "nat \<Rightarrow> nat result" where
  "failing_initialise h = Inl (OtherException ''RuntimeError'', [PStr ''no database''])"

definition empty_state :: "nat state" where
  "empty_state = \<lparr>mbVerbose = False, mdRegistered = Map.empty, msSalt = None\<rparr>"

text \<open>The state after \<open>register({'auth': None}, {'auth': {'url': 'http://auth'}}, 'salt')\<close>.\<close>

definition remote_state :: "nat state" where
  "remote_state =
     fst (register Service_initialise empty_state (ServicesDict [(''auth'', BNone)])
            [(''auth'', [(''url'', ''http://auth'')])] ''salt'')"

section \<open>Properties of the built-ins\<close>

lemma of_char_digit_char: "of_char (digit_char n) = 48 + n mod 10"
proof -
  have "0 \<le> n mod 10" "n mod 10 < 10" by simp_all
  then have "(48 + n mod 10) mod 256 = 48 + n mod 10" by simp
  then show ?thesis by (simp add: digit_char_def of_char_of)
qed

lemma is_digit_digit_char: "is_digit (digit_char n)"
proof -
  have "0 \<le> n mod 10" "n mod 10 < 10" by simp_all
  then show ?thesis by (simp add: is_digit_def of_char_digit_char)
qed

lemma int_str_nonempty: "int_str n \<noteq> []"
  by (subst int_str.simps) simp

lemma int_str_digits: "c \<in> set (int_str n) \<Longrightarrow> is_digit c"
proof (induction n rule: int_str.induct)
  case (1 n)
  then show ?case
    by (subst (asm) (2) int_str.simps) (auto simp: is_digit_digit_char split: if_splits)
qed

lemma parse_dec_int_str:
  "0 \<le> n \<Longrightarrow> parse_dec p acc (int_str n @ ys) = parse_dec True (acc * 10 ^ length (int_str n) + n) ys"
proof (induction n arbitrary: p acc ys rule: int_str.induct)
  case (1 n)
  show ?case
  proof (cases "n < 10")
    case True
    with "1.prems" have "n mod 10 = n" by simp
    with True show ?thesis
      by (subst (1 2) int_str.simps) (simp add: is_digit_digit_char of_char_digit_char algebra_simps)
  next
    case False
    with "1.prems" have nn: "0 \<le> n div 10" by simp
    have "parse_dec p acc (int_str (n div 10) @ digit_char (n mod 10) # ys)
          = parse_dec True (acc * 10 ^ length (int_str (n div 10)) + n div 10) (digit_char (n mod 10) # ys)"
      using "1.IH"[OF False nn] by simp
    with False show ?thesis
      by (subst (1 2) int_str.simps) (simp add: is_digit_digit_char of_char_digit_char algebra_simps)
  qed
qed

lemma is_digit_not_space: "is_digit c \<Longrightarrow> \<not> is_space c"
  by (auto simp: is_digit_def is_space_def Let_def)

lemma strip_id: "s \<noteq> [] \<Longrightarrow> \<not> is_space (hd s) \<Longrightarrow> \<not> is_space (last s) \<Longrightarrow> strip s = s"
proof -
  assume a: "s \<noteq> []" "\<not> is_space (hd s)" "\<not> is_space (last s)"
  then have "dropWhile is_space s = s" by (cases s) auto
  moreover from a have "dropWhile is_space (rev s) = rev s"
    by (cases "rev s") (auto simp: last_rev[symmetric] hd_rev)
  ultimately show ?thesis by (simp add: strip_def)
qed

lemma py_int_py_str_int: "py_int (py_str_int i) = Some i"
proof (cases "i < 0")
  case True
  let ?d = "int_str (- i)"
  have ne: "?d \<noteq> []" by (rule int_str_nonempty)
  then have "last ?d \<in> set ?d" by simp
  then have "\<not> is_space (last ?d)" using int_str_digits is_digit_not_space by blast
  then have "strip (CHR ''-'' # ?d) = CHR ''-'' # ?d"
    using ne by (intro strip_id) (simp_all add: is_space_def)
  moreover have "parse_dec False 0 ?d = Some (- i)"
    using parse_dec_int_str[of "- i" False 0 "[]"] True by simp
  ultimately show ?thesis using True by (simp add: py_int_def py_str_int_def)
next
  case False
  let ?d = "int_str i"
  have ne: "?d \<noteq> []" by (rule int_str_nonempty)
  then obtain c r where cr: "?d = c # r" by (cases ?d) auto
  have "last ?d \<in> set ?d" "hd ?d \<in> set ?d" using ne by simp_all
  then have d: "is_digit (last ?d)" "is_digit (hd ?d)" using int_str_digits by blast+
  then have "strip ?d = ?d" using ne is_digit_not_space by (intro strip_id) auto
  moreover have "parse_dec False 0 ?d = Some i"
    using parse_dec_int_str[of i False 0 "[]"] False by simp
  moreover have "c \<noteq> CHR ''-''" "c \<noteq> CHR ''+''" using d(2) cr by (auto simp: is_digit_def)
  ultimately show ?thesis using False cr by (simp add: py_int_def py_str_int_def)
qed

lemma colon_not_in_py_str_int: "CHR '':'' \<notin> set (py_str_int i)"
proof -
  have "\<not> is_digit CHR '':''" by (simp add: is_digit_def)
  then have "CHR '':'' \<notin> set (int_str n)" for n using int_str_digits by blast
  then show ?thesis by (simp add: py_str_int_def)
qed

lemma hex_digit_in: "hex_digit n \<in> set ''0123456789abcdef''"
proof -
  have "nat (n mod 16) < length ''0123456789abcdef''" by simp
  then show ?thesis unfolding hex_digit_def by (rule nth_mem)
qed

lemma colon_not_in_hex32: "CHR '':'' \<notin> set (hex32 w)"
proof
  assume "CHR '':'' \<in> set (hex32 w)"
  then obtain n where "CHR '':'' = hex_digit n" by (auto simp: hex32_def)
  with hex_digit_in[of n] show False by auto
qed

lemma colon_not_in_sha1: "CHR '':'' \<notin> set (sha1_hexdigest m)"
  by (simp add: sha1_hexdigest_def Let_def colon_not_in_hex32 split: prod.split)

lemma split_on_none: "c \<notin> set s \<Longrightarrow> split_on c s = [s]"
  by (induction s) auto

lemma split_on_append: "c \<notin> set a \<Longrightarrow> split_on c (a @ c # b) = a # split_on c b"
  by (induction a) auto

lemma internalKey_generate:
  "msSalt st = Some salt \<Longrightarrow>
   internalKey st T None = Inr (PStr (key_digest salt (py_str_int T) @ '':'' @ py_str_int T))"
  by (simp add: internalKey_def Let_def)

lemma internalKey_validate_generated:
  "msSalt st = Some salt \<Longrightarrow>
   internalKey st T' (Some (key_digest salt (py_str_int T) @ '':'' @ py_str_int T)) = Inr (PBool (T' - T \<le> 5))"
proof -
  assume s: "msSalt st = Some salt"
  have "split_on CHR '':'' (key_digest salt (py_str_int T) @ CHR '':'' # py_str_int T)
        = [key_digest salt (py_str_int T), py_str_int T]"
    by (simp add: split_on_append split_on_none colon_not_in_py_str_int colon_not_in_sha1 key_digest_def)
  then show ?thesis using s
    by (simp add: internalKey_def py_int_py_str_int)
qed

text \<open>The digest of the model on two test vectors of the standard, one and two blocks long.\<close>

lemma sha1_hexdigest_abc:
  "sha1_hexdigest ''abc'' = ''a9993e364706816aba3e25717850c26c9cd0d89d''"
  by code_simp

lemma sha1_hexdigest_two_blocks:
  "sha1_hexdigest ''abcdbcdecdefdefgefghfghighijhijkijkljklmklmnlmnomnopnopq'' =
     ''84983e441c3bd26ebaae4aa1f95129e5e54670f1''"
  by code_simp

section \<open>The sample state\<close>

lemma msSalt_remote_state: "msSalt remote_state = Some ''salt''"
  by (simp add: remote_state_def register_def empty_state_def)

lemma mdRegistered_remote_state: "mdRegistered remote_state = [''auth'' \<mapsto> Url ''http://auth'']"
  by (simp add: remote_state_def register_def empty_state_def)

section \<open>The result envelope\<close>

text \<open>
  C2, amended. Constructing an envelope with an error that is an integer \<open>n\<close> (a boolean
  included) stores \<open>{code: n, msg: ''}\<close>; a string \<open>s\<close> stores \<open>{code: 0, msg: s}\<close>; a pair
  \<open>(c, m)\<close>, or a longer tuple that starts with \<open>c\<close> and \<open>m\<close>, stores
  \<open>{code: c, msg: m}\<close>; a dict is stored as it is; an exception whose first argument is an
  envelope with an error stores that error; an exception with one argument that is not an
  envelope stores \<open>{code: argument, msg: ''}\<close>. The construction fails with
  \<open>ValueError('error')\<close> exactly when the error is not \<open>None\<close> and has none of the types
  int, str, tuple, dict and exception. (The key of the message is \<open>msg\<close> in the source.)
\<close>

theorem Effect_init_error_shapes:
  "Effect_init d (PInt n) w =
     Inr \<lparr>data = present d, error = Some (err_dict (PInt n) (PStr [])), warning = present w\<rparr>
   \<and> Effect_init d (PBool t) w =
     Inr \<lparr>data = present d, error = Some (err_dict (PBool t) (PStr [])), warning = present w\<rparr>
   \<and> Effect_init d (PStr s) w =
     Inr \<lparr>data = present d, error = Some (err_dict (PInt 0) (PStr s)), warning = present w\<rparr>
   \<and> Effect_init d (PTuple (c # m # rest)) w =
     Inr \<lparr>data = present d, error = Some (err_dict c m), warning = present w\<rparr>
   \<and> Effect_init d (PDict kvs) w =
     Inr \<lparr>data = present d, error = Some (PDict kvs), warning = present w\<rparr>
   \<and> Effect_init d (PExc cls (PEffect a (Some x) b # args)) w =
     Inr \<lparr>data = present d, error = Some x, warning = present w\<rparr>
   \<and> (\<not> is_effect y \<longrightarrow> Effect_init d (PExc cls [y]) w =
     Inr \<lparr>data = present d, error = Some (err_dict y (PStr [])), warning = present w\<rparr>)
   \<and> (Effect_init d e w = Inl (ValueError, [PStr ''error''])
        \<longleftrightarrow> (case e of PBytes _ \<Rightarrow> True | PList _ \<Rightarrow> True | PEffect _ _ _ \<Rightarrow> True
                       | PObject _ \<Rightarrow> True | _ \<Rightarrow> False))"
proof -
  have 9: "Effect_init d e w = Inl z \<longleftrightarrow> Effect_init_error e = Inl z" for z
    by (simp add: Effect_init_def split: sum.splits)
  have "\<not> is_effect y \<Longrightarrow> Effect_init_error (PExc cls [y]) = Inr (Some (err_dict y (PStr [])))"
    by (cases y) (simp_all add: is_effect_def)
  then have c7: "\<not> is_effect y \<longrightarrow> Effect_init d (PExc cls [y]) w =
     Inr \<lparr>data = present d, error = Some (err_dict y (PStr [])), warning = present w\<rparr>"
    by (simp add: Effect_init_def)
  have "Effect_init_error e = Inl (ValueError, [PStr ''error''])
        \<longleftrightarrow> (case e of PBytes _ \<Rightarrow> True | PList _ \<Rightarrow> True | PEffect _ _ _ \<Rightarrow> True
                       | PObject _ \<Rightarrow> True | _ \<Rightarrow> False)"
    by (cases e) (auto split: list.splits pyval.splits option.splits)
  then have c8: "Effect_init d e w = Inl (ValueError, [PStr ''error''])
        \<longleftrightarrow> (case e of PBytes _ \<Rightarrow> True | PList _ \<Rightarrow> True | PEffect _ _ _ \<Rightarrow> True
                       | PObject _ \<Rightarrow> True | _ \<Rightarrow> False)"
    by (simp only: 9)
  show ?thesis
    by (intro conjI c7 c8) (simp_all add: Effect_init_def)
qed

text \<open>The amended C2 at an exception with the single argument 5.\<close>

theorem Effect_init_error_shapes_witness:
  "\<not> is_effect (PInt 5) \<and>
   Effect_init PNone (PExc ValueError [PInt 5]) PNone =
     Inr \<lparr>data = None, error = Some (err_dict (PInt 5) (PStr [])), warning = None\<rparr>"
  using Effect_init_error_shapes[where d = PNone and w = PNone and y = "PInt 5" and cls = ValueError]
  by (simp add: is_effect_def present_def)

text \<open>
  C2 as stated fails: an exception that wraps no envelope is none of the five shapes, and
  constructing an envelope from \<open>RuntimeError(5)\<close> succeeds with \<open>{code: 5, msg: ''}\<close>
  instead of failing with \<open>ValueError('error')\<close>.
\<close>

theorem Effect_init_plain_exception_accepted:
  "Effect_init PNone (PExc (OtherException ''RuntimeError'') [PInt 5]) PNone =
     Inr \<lparr>data = None, error = Some (PDict [(PStr ''code'', PInt 5), (PStr ''msg'', PStr [])]),
          warning = None\<rparr>"
  by code_simp

section \<open>The router\<close>

text \<open>
  C3, amended. For every call whose service has no registration the call raises, whatever
  the action, path, payload and session: the exception is an \<open>EffectException\<close> that wraps
  an envelope whose error is \<open>{code: SERVICE_NOT_REGISTERED, msg: service}\<close>. It is not the
  only fault that propagates out of the router.
\<close>

theorem request_not_registered:
  assumes "mdRegistered st service = None"
  shows "request W st service action path d sesh =
           Inl (EffectException,
                [PEffect None
                   (Some (err_dict (PInt (SERVICE_NOT_REGISTERED (Errors W))) (PStr service)))
                   None])"
  using assms
  by (simp add: request_def EffectException_init_def Effect_init_def effect_val_def present_def)

text \<open>The amended C3 at the empty registry.\<close>

theorem request_not_registered_witness:
  "mdRegistered empty_state ''auth'' = None \<and>
   request (sample_world (ConnectionFailed ''down'')) empty_state ''auth'' ''read'' ''/session''
     (PDict []) None =
     Inl (EffectException,
          [PEffect None (Some (PDict [(PStr ''code'', PInt 204), (PStr ''msg'', PStr ''auth'')]))
             None])"
proof -
  have h: "mdRegistered empty_state ''auth'' = None" by (simp add: empty_state_def)
  show ?thesis
    using h request_not_registered[OF h, of "sample_world (ConnectionFailed ''down'')" "''read''"
        "''/session''" "PDict []" None]
    by (simp add: sample_world_def sample_errors_def err_dict_def)
qed

text \<open>
  C3 as stated fails: with \<open>auth\<close> registered as a remote service, a response with status
  200 and the JSON content type whose body is not JSON makes the call raise
  \<open>ValueError('val', ...)\<close>, a second fault that propagates instead of being returned in
  an envelope.
\<close>

theorem request_malformed_body_raises:
  "mdRegistered remote_state ''auth'' = Some (Url ''http://auth'') \<and>
   request
     (sample_world
        (Response \<lparr>status_code = 200, content = ''not json'', body_text = ''not json'',
                   headers = [(''Content-Type'', ''application/json; charset=utf-8'')]\<rparr>))
     remote_state ''auth'' ''read'' ''/session'' (PDict []) None =
     Inl (ValueError, [PStr ''val'', PStr ''Expecting value''])"
  by code_simp

text \<open>
  A response with status 200, the JSON content type and the body \<open>{"data": {"ok": true}}\<close>
  gives an envelope whose data is \<open>{"ok": true}\<close>.
\<close>

lemma request_200_data:
  "request
     (sample_world
        (Response \<lparr>status_code = 200, content = [],
                   body_text = ''{'' @ dq # ''data'' @ dq # '': {'' @ dq # ''ok'' @ dq # '': true}}'',
                   headers = [(''content-type'', ''application/json; charset=UTF-8'')]\<rparr>))
     remote_state ''auth'' ''read'' ''/session'' (PDict []) None =
     Inr \<lparr>data = Some (PDict [(PStr ''ok'', PBool True)]), error = None, warning = None\<rparr>"
  by code_simp

text \<open>
  C4. A call to a registered remote service with an action outside create, read, update and
  delete should return an envelope with the error \<open>SERVICE_ACTION\<close>. The source constructs
  that envelope and drops it; the call of \<open>__request('auth', 'patch', '/session', {})\<close>
  raises \<open>KeyError('patch')\<close>.
\<close>

theorem request_unknown_action_raises:
  "request (sample_world (ConnectionFailed ''down'')) remote_state ''auth'' ''patch'' ''/session''
     (PDict []) None = Inl (KeyError, [PStr ''patch''])"
  by code_simp

text \<open>With an unknown action the remote branch never returns an envelope.\<close>

lemma request_remote_unknown_action:
  assumes "funcToRequest action = None"
  shows "\<exists>x. request_remote W st url action path d sesh = Inl x"
  using assms by (simp add: request_remote_def Let_def split: sum.splits)

lemma request_unknown_action:
  assumes "mdRegistered st service = Some (Url url)" and "funcToRequest action = None"
  shows "\<exists>x. request W st service action path d sesh = Inl x"
  using assms request_remote_unknown_action[of action W st url path d sesh]
  by (simp add: request_def)

text \<open>
  A response whose status is not 200 gives an envelope with the error \<open>SERVICE_STATUS\<close>;
  its message is the status, a colon and a space, and the \<open>repr\<close> of the body, which is
  \<open>bytes\<close>.
\<close>

lemma request_remote_status:
  assumes "funcToRequest action = Some verb" and "json_dumps W d = Inr sData"
    and "http_call W verb (url @ path) sData
           ([(''Content-Type'', ''application/json; charset=utf-8''),
             (''Content-Length'', py_str_int (int (length sData)))] @
            (case sesh of None \<Rightarrow> [] | Some sid \<Rightarrow> [(''Authorization'', sid)])) = Response oRes"
    and "status_code oRes \<noteq> 200"
  shows "request_remote W st url action path d sesh =
           Inr \<lparr>data = None,
                error = Some (err_dict (PInt (SERVICE_STATUS (Errors W)))
                               (PStr (py_str_int (status_code oRes) @ '': '' @
                                      bytes_repr (content oRes)))),
                warning = None\<rparr>"
  using assms by (simp add: request_remote_def Let_def Effect_init_def present_def)

text \<open>
  C9. A response with status 500 and body \<open>boom\<close> should give the detail \<open>500: boom\<close>.
  The source formats \<open>oRes.content\<close>, which is \<open>bytes\<close>, with \<open>%s\<close>: the detail is
  \<open>500: b'boom'\<close>.
\<close>

theorem request_status_500_boom:
  "request
     (sample_world
        (Response \<lparr>status_code = 500, content = ''boom'', body_text = ''boom'', headers = []\<rparr>))
     remote_state ''auth'' ''read'' ''/session'' (PDict []) None =
     Inr \<lparr>data = None,
          error = Some (PDict [(PStr ''code'', PInt 201),
                               (PStr ''msg'', PStr (''500: b'' @ [CHR 0x27] @ ''boom'' @ [CHR 0x27]))]),
          warning = None\<rparr>"
  by code_simp

section \<open>The internal key\<close>

text \<open>
  C6. For every salt and every time \<open>T\<close>, generating a key at time \<open>T\<close> returns a key; a
  validator with the same salt accepts it at every time \<open>T'\<close> with \<open>0 \<le> T' - T \<le> 5\<close> and
  rejects it at time \<open>T + 6\<close>.
\<close>

theorem internalKey_window:
  assumes "msSalt st = Some salt" and "msSalt st' = Some salt"
    and "0 \<le> T' - T" and "T' - T \<le> 5"
  shows "\<exists>tok. internalKey st T None = Inr (PStr tok) \<and>
           internalKey st' T' (Some tok) = Inr (PBool True) \<and>
           internalKey st' (T + 6) (Some tok) = Inr (PBool False)"
proof -
  let ?tok = "key_digest salt (py_str_int T) @ '':'' @ py_str_int T"
  have "internalKey st T None = Inr (PStr ?tok)"
    using assms(1) by (rule internalKey_generate)
  moreover have "internalKey st' T' (Some ?tok) = Inr (PBool True)"
    using internalKey_validate_generated[OF assms(2), of T' T] assms(4) by simp
  moreover have "internalKey st' (T + 6) (Some ?tok) = Inr (PBool False)"
    using internalKey_validate_generated[OF assms(2), of "T + 6" T] by simp
  ultimately show ?thesis by blast
qed

text \<open>C6 at the salt \<open>salt\<close>, generated at 1541376000 and validated five and six seconds later.\<close>

theorem internalKey_window_witness:
  "msSalt remote_state = Some ''salt'' \<and>
   internalKey remote_state 1541376000 None =
     Inr (PStr ''4b3ad2351ddffcd09898a93709e93b591fe8bbda:1541376000'') \<and>
   internalKey remote_state 1541376005
     (Some ''4b3ad2351ddffcd09898a93709e93b591fe8bbda:1541376000'') = Inr (PBool True) \<and>
   internalKey remote_state 1541376006
     (Some ''4b3ad2351ddffcd09898a93709e93b591fe8bbda:1541376000'') = Inr (PBool False)"
proof -
  have s: "msSalt remote_state = Some ''salt''" by (rule msSalt_remote_state)
  have g: "internalKey remote_state 1541376000 None =
             Inr (PStr ''4b3ad2351ddffcd09898a93709e93b591fe8bbda:1541376000'')"
    by code_simp
  have "\<exists>tok. internalKey remote_state 1541376000 None = Inr (PStr tok) \<and>
           internalKey remote_state 1541376005 (Some tok) = Inr (PBool True) \<and>
           internalKey remote_state (1541376000 + 6) (Some tok) = Inr (PBool False)"
    by (rule internalKey_window[OF s s]) simp_all
  then obtain tok where t: "internalKey remote_state 1541376000 None = Inr (PStr tok)"
      "internalKey remote_state 1541376005 (Some tok) = Inr (PBool True)"
      "internalKey remote_state (1541376000 + 6) (Some tok) = Inr (PBool False)"
    by blast
  from t(1) g have "tok = ''4b3ad2351ddffcd09898a93709e93b591fe8bbda:1541376000''" by simp
  with t g s show ?thesis by simp
qed

text \<open>
  What the validation answers for a key that splits at its colon into a digest and a time
  that reads as the integer \<open>t\<close>: the key is rejected when the validator's time is more than
  5 seconds after \<open>t\<close>, and otherwise it is accepted exactly when the digest is the one
  derived from the salt and the time in the key. No test bounds a time in the key that lies
  ahead of the validator's clock.
\<close>

lemma internalKey_validate_split:
  assumes "split_on CHR '':'' key = [sSHA1', sTime]" and "py_int sTime = Some t"
  shows "internalKey st iTime (Some key) =
           Inr (PBool (iTime - t \<le> 5 \<and>
                       (case msSalt st of None \<Rightarrow> False
                        | Some salt \<Rightarrow> key_digest salt sTime = sSHA1')))"
  using assms by (simp add: internalKey_def split: option.splits)

text \<open>
  A time with one of the separators 28 to 31 before its digits is not a number for
  \<open>int()\<close>: such a key is rejected, whatever its digest.
\<close>

lemma internalKey_separator_rejected:
  "py_int (CHR 0x1F # ''1100'') = None \<and>
   internalKey remote_state 1100
     (Some (key_digest ''salt'' (CHR 0x1F # ''1100'') @ '':'' @ CHR 0x1F # ''1100'')) =
     Inr (PBool False)"
proof -
  have a: "py_int (CHR 0x1F # ''1100'') = None" by code_simp
  have "split_on CHR '':'' (key_digest ''salt'' (CHR 0x1F # ''1100'') @ CHR '':'' # CHR 0x1F # ''1100'')
        = [key_digest ''salt'' (CHR 0x1F # ''1100''), CHR 0x1F # ''1100'']"
    by (simp add: split_on_append split_on_none colon_not_in_sha1 key_digest_def)
  with a show ?thesis by (simp add: internalKey_def)
qed

text \<open>
  C7. Validation should reject every key whose time differs from the validator's time by
  more than 5 seconds in either direction, a key from the future included. The source,
  under its comment \<open>If the time is not close enough\<close>, tests \<open>iTime - int(sTime) > 5\<close>
  only: the key generated at time 1100 is accepted by a validator whose clock reads 1000,
  100 seconds before the time in the key.
\<close>

theorem internalKey_future_accepted:
  "internalKey remote_state 1100 None =
     Inr (PStr ''3d9c550d0623497fe409242a64440a12c7610162:1100'') \<and>
   internalKey remote_state 1000 (Some ''3d9c550d0623497fe409242a64440a12c7610162:1100'') =
     Inr (PBool True)"
  by code_simp

section \<open>The JSON model reads back what it writes\<close>

lemma hex_val_hex_digit: "0 \<le> n \<Longrightarrow> n < 16 \<Longrightarrow> hex_val (hex_digit n) = Some n"
proof -
  assume "0 \<le> n" "n < 16"
  then have "n \<in> {0,1,2,3,4,5,6,7,8,9,10,11,12,13,14,15}" by simp presburger
  then show ?thesis
    by (auto simp: hex_val_def hex_digit_def)
qed

lemma char_of_code: "of_char c = (k::int) \<Longrightarrow> c = char_of k"
  by (metis char_of_char)

lemma special_chars:
  "char_of (34::int) = CHR 0x22" "char_of (92::int) = CHR 0x5C" "char_of (10::int) = CHR 0x0A"
  "char_of (13::int) = CHR 0x0D" "char_of (9::int) = CHR 0x09" "char_of (8::int) = CHR 0x08"
  "char_of (12::int) = CHR 0x0C"
  by code_simp+

lemma parse_str_escape:
  "parse_str (json_escape_char c @ s) = map_option (\<lambda>(x, t). (c # x, t)) (parse_str s)"
proof -
  let ?n = "of_char c :: int"
  have "?n mod 256 = ?n" by (rule of_char_mod_256)
  then have n0: "0 \<le> ?n" using pos_mod_sign[of 256 ?n] by simp
  consider "?n = 34" | "?n = 92" | "?n = 10" | "?n = 13" | "?n = 9" | "?n = 8" | "?n = 12"
    | "?n < 32" "?n \<notin> {8, 9, 10, 12, 13}" | "32 \<le> ?n" "?n \<noteq> 34" "?n \<noteq> 92"
    by force
  then show ?thesis
  proof cases
    case 8
    have a: "hex_val (hex_digit (?n div 16)) = Some (?n div 16)"
      using 8 n0 by (intro hex_val_hex_digit) auto
    have "hex_digit ?n = hex_digit (?n mod 16)" by (simp add: hex_digit_def)
    then have b: "hex_val (hex_digit ?n) = Some (?n mod 16)"
      using hex_val_hex_digit[of "?n mod 16"] by simp
    have d: "?n div 16 = 0 \<or> ?n div 16 = 1" using 8 n0 by auto
    have e: "char_of (16 * (?n div 16) + ?n mod 16) = c" by simp
    have z: "hex_val CHR ''0'' = Some 0" by (simp add: hex_val_def)
    have ne: "c \<noteq> dq" "c \<noteq> bsl" using 8 by (auto simp: dq_def bsl_def)
    have l: "16 * (?n div 16) + ?n mod 16 < 128" using 8 by simp
    have "json_escape_char c = [bsl, CHR ''u'', CHR ''0'', CHR ''0'', hex_digit (?n div 16), hex_digit ?n]"
      using 8 by (auto simp: json_escape_char_def Let_def)
    then show ?thesis
      using a b z l by (simp add: dq_def bsl_def del: mult_div_mod_eq)
  qed (auto simp: json_escape_char_def unescape_def dq_def bsl_def Let_def special_chars
        dest!: char_of_code)
qed

lemma parse_str_quoted:
  "parse_str (concat (map json_escape_char k) @ dq # rest) = Some (k, rest)"
  by (induction k) (simp_all add: parse_str_escape)

lemma of_char_nonneg: "0 \<le> (of_char c :: int)"
proof -
  have "(of_char c :: int) mod 256 = of_char c" by (rule of_char_mod_256)
  then show ?thesis using pos_mod_sign[of 256 "of_char c :: int"] by simp
qed

lemma digit_char_nonzero: "0 < n \<Longrightarrow> n < 10 \<Longrightarrow> digit_char n \<noteq> CHR ''0''"
proof
  assume a: "0 < n" "n < 10" "digit_char n = CHR ''0''"
  then have "(of_char (digit_char n) :: int) = 48" by simp
  with a(1,2) show False by (simp add: of_char_digit_char)
qed

lemma hd_int_str_nonzero: "0 < n \<Longrightarrow> hd (int_str n) \<noteq> CHR ''0''"
proof (induction n rule: int_str.induct)
  case (1 n)
  show ?case
  proof (cases "n < 10")
    case True
    with "1.prems" show ?thesis
      by (subst int_str.simps) (simp add: digit_char_nonzero)
  next
    case False
    then have "0 < n div 10" by simp
    from "1.IH"[OF False this] False show ?thesis
      by (subst int_str.simps) (simp add: int_str_nonempty)
  qed
qed

lemma int_str_length_one: "n < 10 \<Longrightarrow> length (int_str n) = 1"
  by (subst int_str.simps) simp

lemma int_str_all_digits: "takeWhile is_digit (int_str n) = int_str n"
  by (simp add: takeWhile_eq_all_conv int_str_digits)

lemma follow_ok_not_digit: "follow_ok rest \<Longrightarrow> rest = [] \<or> \<not> is_digit (hd rest)"
  by (cases rest) (auto simp: follow_ok_def is_digit_def)

lemma digits_split:
  assumes "follow_ok rest"
  shows "takeWhile is_digit (int_str n @ rest) = int_str n"
    and "dropWhile is_digit (int_str n @ rest) = rest"
proof -
  have a: "\<forall>c\<in>set (int_str n). is_digit c" using int_str_digits by blast
  from follow_ok_not_digit[OF assms] have b: "takeWhile is_digit rest = []" "dropWhile is_digit rest = rest"
    by (cases rest; simp)+
  show "takeWhile is_digit (int_str n @ rest) = int_str n"
    using a b by (simp add: takeWhile_append2)
  show "dropWhile is_digit (int_str n @ rest) = rest"
    using a b by (simp add: dropWhile_append2)
qed

lemma follow_ok_not_frac: "follow_ok rest \<Longrightarrow> \<not> (rest \<noteq> [] \<and> hd rest \<in> set ''.eE'')"
  by (cases rest) (auto simp: follow_ok_def)

lemma parse_num_digits:
  assumes "follow_ok rest" and "0 \<le> n"
  shows "parse_num (int_str n @ rest) = Some (PInt n, rest)"
proof -
  obtain c r where cr: "int_str n = c # r" using int_str_nonempty[of n] by (cases "int_str n") auto
  have "c \<in> set (int_str n)" by (simp add: cr)
  then have "is_digit c" by (rule int_str_digits)
  then have nm: "c \<noteq> CHR ''-''" by (auto simp: is_digit_def)
  have lz: "\<not> (length (int_str n) > 1 \<and> hd (int_str n) = CHR ''0'')"
  proof (cases "n < 10")
    case True
    then show ?thesis by (simp add: int_str_length_one)
  next
    case False
    then have "0 < n" by simp
    then show ?thesis using hd_int_str_nonzero by blast
  qed
  have pd: "parse_dec False 0 (int_str n) = Some n"
    using parse_dec_int_str[OF assms(2), of False 0 "[]"] by simp
  have neg: "\<not> (int_str n @ rest \<noteq> [] \<and> hd (int_str n @ rest) = CHR ''-'')"
    using nm by (simp add: cr)
  show ?thesis
    unfolding parse_num_def Let_def
    using neg lz pd follow_ok_not_frac[OF assms(1)] int_str_nonempty[of n]
    by (simp add: digits_split[OF assms(1)])
qed

lemma parse_num_py_str_int:
  assumes "follow_ok rest"
  shows "parse_num (py_str_int i @ rest) = Some (PInt i, rest)"
proof (cases "i < 0")
  case False
  then show ?thesis using parse_num_digits[OF assms, of i] by (simp add: py_str_int_def)
next
  case True
  then have n: "0 \<le> - i" by simp
  have lz: "\<not> (length (int_str (- i)) > 1 \<and> hd (int_str (- i)) = CHR ''0'')"
  proof (cases "- i < 10")
    case True
    then show ?thesis by (simp add: int_str_length_one)
  next
    case False
    then have "0 < - i" by simp
    then show ?thesis using hd_int_str_nonzero by blast
  qed
  have pd: "parse_dec False 0 (int_str (- i)) = Some (- i)"
    using parse_dec_int_str[OF n, of False 0 "[]"] by simp
  show ?thesis
    unfolding parse_num_def Let_def
    using True lz pd follow_ok_not_frac[OF assms] int_str_nonempty[of "- i"]
    by (simp add: py_str_int_def digits_split[OF assms])
qed

lemma skip_ws_space: "skip_ws (CHR '' '' # s) = skip_ws s"
  by (simp add: skip_ws_def json_ws_def)

lemma skip_ws_id: "s \<noteq> [] \<Longrightarrow> \<not> json_ws (hd s) \<Longrightarrow> skip_ws s = s"
  by (cases s) (simp_all add: skip_ws_def)

lemma parse_value_space: "parse_value n (CHR '' '' # s) = parse_value n s"
  by (cases n) (simp_all add: skip_ws_space)

lemma parse_elems_space: "parse_elems n (CHR '' '' # s) = parse_elems n s"
  by (cases n) (simp_all add: parse_value_space)

lemma parse_members_space: "parse_members n (CHR '' '' # s) = parse_members n s"
  by (cases n) (simp_all add: skip_ws_space)

lemma value_start_props:
  "value_start c \<Longrightarrow> \<not> json_ws c \<and> c \<noteq> CHR '']'' \<and> c \<noteq> CHR ''}''"
  by (auto simp: value_start_def json_ws_def dq_def)

lemma is_digit_cases: "is_digit c \<Longrightarrow> c \<in> set ''0123456789''"
proof -
  assume "is_digit c"
  then have a: "48 \<le> (of_char c :: int)" "(of_char c :: int) \<le> 57" by (simp_all add: is_digit_def Let_def)
  then have "(of_char c :: int) \<in> {48,49,50,51,52,53,54,55,56,57}" by simp presburger
  then have "c \<in> char_of ` {48,49,50,51,52,53,54,55,56,57::int}"
    by (metis char_of_char imageI)
  moreover have "char_of ` {48,49,50,51,52,53,54,55,56,57::int} = set ''0123456789''"
    by code_simp
  ultimately show ?thesis by (rule back_subst[of "\<lambda>A. c \<in> A"])
qed

lemma py_str_int_start: "py_str_int i \<noteq> [] \<and> value_start (hd (py_str_int i))"
proof -
  have "int_str n \<noteq> [] \<and> value_start (hd (int_str n))" for n
  proof -
    have ne: "int_str n \<noteq> []" by (rule int_str_nonempty)
    then have "hd (int_str n) \<in> set (int_str n)" by simp
    then have "is_digit (hd (int_str n))" by (rule int_str_digits)
    from is_digit_cases[OF this] ne show ?thesis by (auto simp: value_start_def)
  qed
  then show ?thesis by (auto simp: py_str_int_def value_start_def)
qed

lemma dumps_val_start:
  "dumps_val v = Some s \<Longrightarrow> s \<noteq> [] \<and> value_start (hd s)"
  using py_str_int_start
  by (cases v) (auto simp: value_start_def json_quote_def split: if_splits)

lemma elems_roundtrip:
  assumes "json_ok_list xs" and "xs \<noteq> []"
    and "\<And>x. x \<in> set xs \<Longrightarrow> json_ok x \<Longrightarrow>
           \<exists>s. dumps_val x = Some s \<and>
               (\<forall>n rest. length s \<le> n \<longrightarrow> follow_ok rest \<longrightarrow>
                  parse_value n (s @ rest) = Some (x, rest))"
  shows "\<exists>r. dumps_list xs = Some r \<and> r \<noteq> [] \<and> value_start (hd r) \<and>
             (\<forall>n rest. length r < n \<longrightarrow>
                parse_elems n (r @ CHR '']'' # rest) = Some (xs, rest))"
  using assms
proof (induction xs)
  case Nil
  then show ?case by simp
next
  case (Cons x xs)
  from Cons.prems(1) have okx: "json_ok x" and okxs: "json_ok_list xs" by simp_all
  from Cons.prems(3)[of x] okx obtain s where s: "dumps_val x = Some s"
    and ps: "\<And>n rest. length s \<le> n \<Longrightarrow> follow_ok rest \<Longrightarrow>
               parse_value n (s @ rest) = Some (x, rest)"
    by auto
  from dumps_val_start[OF s] have s0: "s \<noteq> []" "value_start (hd s)" by simp_all
  show ?case
  proof (cases "xs = []")
    case True
    have "parse_elems n (s @ CHR '']'' # rest) = Some ([x], rest)" if "length s < n" for n rest
    proof -
      from that obtain m where n: "n = Suc m" and m: "length s \<le> m" by (cases n) auto
      have "follow_ok (CHR '']'' # rest)" by (simp add: follow_ok_def)
      from ps[OF m this] show ?thesis by (simp add: n skip_ws_def json_ws_def)
    qed
    with s s0 True show ?thesis by simp
  next
    case False
    have "\<exists>r. dumps_list xs = Some r \<and> r \<noteq> [] \<and> value_start (hd r) \<and>
             (\<forall>n rest. length r < n \<longrightarrow>
                parse_elems n (r @ CHR '']'' # rest) = Some (xs, rest))"
      using okxs False Cons.prems(3) by (intro Cons.IH) auto
    then obtain r where r: "dumps_list xs = Some r"
      and pr: "\<And>n rest. length r < n \<Longrightarrow> parse_elems n (r @ CHR '']'' # rest) = Some (xs, rest)"
      by auto
    have "parse_elems n ((s @ '', '' @ r) @ CHR '']'' # rest) = Some (x # xs, rest)"
      if "length (s @ '', '' @ r) < n" for n rest
    proof -
      from that obtain m where n: "n = Suc m" and m: "length s + 2 + length r \<le> m"
        by (cases n) auto
      have f: "follow_ok (CHR '','' # CHR '' '' # r @ CHR '']'' # rest)"
        by (simp add: follow_ok_def)
      have "length s \<le> m" using m by simp
      from ps[OF this f]
      have a: "parse_value m (s @ CHR '','' # CHR '' '' # r @ CHR '']'' # rest) =
                 Some (x, CHR '','' # CHR '' '' # r @ CHR '']'' # rest)" .
      have "length r < m" using m by simp
      from pr[OF this, of rest]
      have b: "parse_elems m (CHR '' '' # r @ CHR '']'' # rest) = Some (xs, rest)"
        by (simp add: parse_elems_space)
      show ?thesis using a b by (simp add: n skip_ws_def json_ws_def)
    qed
    with s r s0 False show ?thesis by simp
  qed
qed

lemma members_roundtrip:
  assumes "json_ok_items kvs" and "kvs \<noteq> []"
    and "\<And>k v. (k, v) \<in> set kvs \<Longrightarrow> json_ok v \<Longrightarrow>
           \<exists>s. dumps_val v = Some s \<and>
               (\<forall>n rest. length s \<le> n \<longrightarrow> follow_ok rest \<longrightarrow>
                  parse_value n (s @ rest) = Some (v, rest))"
  shows "\<exists>r. dumps_items kvs = Some r \<and> r \<noteq> [] \<and> hd r = dq \<and>
             (\<forall>n rest. length r < n \<longrightarrow>
                parse_members n (r @ CHR ''}'' # rest) = Some (kvs, rest))"
  using assms
proof (induction kvs)
  case Nil
  then show ?case by simp
next
  case (Cons kv kvs)
  obtain k v where kv: "kv = (k, v)" by (cases kv)
  from Cons.prems(1) obtain ks where k: "k = PStr ks" and okv: "json_ok v"
    and fresh: "k \<notin> fst ` set kvs" and okkvs: "json_ok_items kvs"
    by (auto simp: kv split: pyval.splits)
  from Cons.prems(3)[of k v] okv obtain s where s: "dumps_val v = Some s"
    and ps: "\<And>n rest. length s \<le> n \<Longrightarrow> follow_ok rest \<Longrightarrow>
               parse_value n (s @ rest) = Some (v, rest)"
    by (auto simp: kv)
  let ?e = "concat (map json_escape_char ks)"
  let ?item = "json_quote ks @ '': '' @ s"
  have item: "dumps_item kv = Some ?item" by (simp add: kv k json_key_def s)
  have fresh': "map_of kvs (PStr ks) = None"
    using fresh by (simp add: k map_of_eq_None_iff)
  have dqws: "\<not> json_ws dq" by (simp add: json_ws_def dq_def)
  have key: "parse_str (?e @ dq # t) = Some (ks, t)" for t by (rule parse_str_quoted)
  show ?case
  proof (cases "kvs = []")
    case True
    have "parse_members n (?item @ CHR ''}'' # rest) = Some ([kv], rest)" if "length ?item < n" for n rest
    proof -
      from that obtain m where n: "n = Suc m" and m: "length s \<le> m" by (cases n) auto
      have "follow_ok (CHR ''}'' # rest)" by (simp add: follow_ok_def)
      from ps[OF m this]
      have a: "parse_value m (CHR '' '' # s @ CHR ''}'' # rest) = Some (v, CHR ''}'' # rest)"
        by (simp add: parse_value_space)
      show ?thesis
        using a dqws key[of "CHR '':'' # CHR '' '' # s @ CHR ''}'' # rest"]
        by (simp add: n json_quote_def skip_ws_def json_ws_def kv k)
    qed
    with item True show ?thesis by (simp add: json_quote_def)
  next
    case False
    have "\<exists>r. dumps_items kvs = Some r \<and> r \<noteq> [] \<and> hd r = dq \<and>
             (\<forall>n rest. length r < n \<longrightarrow>
                parse_members n (r @ CHR ''}'' # rest) = Some (kvs, rest))"
      using okkvs False Cons.prems(3) by (intro Cons.IH) auto
    then obtain r where r: "dumps_items kvs = Some r"
      and pr: "\<And>n rest. length r < n \<Longrightarrow> parse_members n (r @ CHR ''}'' # rest) = Some (kvs, rest)"
      by auto
    have "parse_members n ((?item @ '', '' @ r) @ CHR ''}'' # rest) = Some (kv # kvs, rest)"
      if "length (?item @ '', '' @ r) < n" for n rest
    proof -
      from that obtain m where n: "n = Suc m" and m: "length s + 2 + length r \<le> m"
        by (cases n) auto
      have f: "follow_ok (CHR '','' # CHR '' '' # r @ CHR ''}'' # rest)"
        by (simp add: follow_ok_def)
      have "length s \<le> m" using m by simp
      from ps[OF this f]
      have a: "parse_value m (CHR '' '' # s @ CHR '','' # CHR '' '' # r @ CHR ''}'' # rest) =
                 Some (v, CHR '','' # CHR '' '' # r @ CHR ''}'' # rest)"
        by (simp add: parse_value_space)
      have "length r < m" using m by simp
      from pr[OF this, of rest]
      have b: "parse_members m (CHR '' '' # r @ CHR ''}'' # rest) = Some (kvs, rest)"
        by (simp add: parse_members_space)
      show ?thesis
        using a b dqws fresh'
          key[of "CHR '':'' # CHR '' '' # s @ CHR '','' # CHR '' '' # r @ CHR ''}'' # rest"]
        by (simp add: n json_quote_def skip_ws_def json_ws_def kv k dict_cons_def)
    qed
    with item r False show ?thesis by (simp add: json_quote_def)
  qed
qed

lemma dumps_parse:
  "json_ok v \<Longrightarrow>
   \<exists>s. dumps_val v = Some s \<and>
       (\<forall>n rest. length s \<le> n \<longrightarrow> follow_ok rest \<longrightarrow>
          parse_value n (s @ rest) = Some (v, rest))"
proof (induction v)
  case PNone
  have "parse_value n (''null'' @ rest) = Some (PNone, rest)" if "length ''null'' \<le> n" for n rest
    using that by (cases n) (simp_all add: skip_ws_def json_ws_def strip_prefix_def dq_def)
  then show ?case by simp
next
  case (PBool b)
  have "parse_value n ((if b then ''true'' else ''false'') @ rest) = Some (PBool b, rest)"
    if "length (if b then ''true'' else ''false'') \<le> n" for n rest
    using that by (cases n; cases b) (simp_all add: skip_ws_def json_ws_def strip_prefix_def dq_def)
  then show ?case by simp
next
  case (PInt i)
  have "parse_value n (py_str_int i @ rest) = Some (PInt i, rest)"
    if "length (py_str_int i) \<le> n" and f: "follow_ok rest" for n rest
  proof -
    from py_str_int_start[of i] obtain c r where cr: "py_str_int i = c # r" and c: "value_start c"
      by (cases "py_str_int i") auto
    from that(1) cr obtain m where n: "n = Suc m" by (cases n) auto
    have c': "c = CHR ''-'' \<or> is_digit c"
    proof (cases "i < 0")
      case True
      then show ?thesis using cr by (simp add: py_str_int_def)
    next
      case False
      then have "c \<in> set (int_str i)" using cr by (simp add: py_str_int_def)
      then show ?thesis using int_str_digits by blast
    qed
    then have ne: "c \<noteq> CHR ''{''" "c \<noteq> CHR ''[''" "c \<noteq> dq" "c \<noteq> CHR ''n''" "c \<noteq> CHR ''t''"
        "c \<noteq> CHR ''f''" "\<not> json_ws c"
      by (auto simp: is_digit_def dq_def json_ws_def Let_def)
    have "parse_num (c # r @ rest) = Some (PInt i, rest)"
      using parse_num_py_str_int[OF f, of i] by (simp add: cr)
    then show ?thesis
      using ne by (simp add: n cr skip_ws_def strip_prefix_def)
  qed
  then show ?case by simp
next
  case (PStr s)
  have "parse_value n (json_quote s @ rest) = Some (PStr s, rest)"
    if "length (json_quote s) \<le> n" for n rest
  proof -
    from that obtain m where n: "n = Suc m" by (cases n) (auto simp: json_quote_def)
    have "\<not> json_ws dq" "dq \<noteq> CHR ''{''" "dq \<noteq> CHR ''[''" by (simp_all add: json_ws_def dq_def)
    then show ?thesis
      using parse_str_quoted[of s rest] by (simp add: n json_quote_def skip_ws_def)
  qed
  then show ?case by simp
next
  case (PList xs)
  from PList.prems have ok: "json_ok_list xs" by simp
  show ?case
  proof (cases "xs = []")
    case True
    have "parse_value n (''[]'' @ rest) = Some (PList [], rest)" if "length ''[]'' \<le> n" for n rest
      using that by (cases n) (simp_all add: skip_ws_def json_ws_def)
    with True show ?thesis by simp
  next
    case False
    from elems_roundtrip[OF ok False] PList.IH obtain r where r: "dumps_list xs = Some r"
      and r0: "r \<noteq> []" "value_start (hd r)"
      and pr: "\<And>n rest. length r < n \<Longrightarrow> parse_elems n (r @ CHR '']'' # rest) = Some (xs, rest)"
      by blast
    from r0 obtain c r' where cr: "r = c # r'" and c: "value_start c" by (cases r) auto
    from value_start_props[OF c] have ne: "\<not> json_ws c" "c \<noteq> CHR '']''" by simp_all
    have "parse_value n ((''['' @ r @ '']'') @ rest) = Some (PList xs, rest)"
      if "length (''['' @ r @ '']'') \<le> n" for n rest
    proof -
      from that obtain m where n: "n = Suc m" and m: "length r < m" by (cases n) auto
      from pr[OF m, of rest] ne show ?thesis
        by (simp add: n cr skip_ws_def json_ws_def)
    qed
    with r show ?thesis by simp
  qed
next
  case (PDict kvs)
  from PDict.prems have ok: "json_ok_items kvs" by simp
  show ?case
  proof (cases "kvs = []")
    case True
    have "parse_value n (''{}'' @ rest) = Some (PDict [], rest)" if "length ''{}'' \<le> n" for n rest
      using that by (cases n) (simp_all add: skip_ws_def json_ws_def)
    with True show ?thesis by simp
  next
    case False
    have ih: "\<exists>s. dumps_val v = Some s \<and>
               (\<forall>n rest. length s \<le> n \<longrightarrow> follow_ok rest \<longrightarrow>
                  parse_value n (s @ rest) = Some (v, rest))"
      if "(k, v) \<in> set kvs" and "json_ok v" for k v
      using PDict.IH(2) that by fastforce
    have "\<exists>r. dumps_items kvs = Some r \<and> r \<noteq> [] \<and> hd r = dq \<and>
             (\<forall>n rest. length r < n \<longrightarrow>
                parse_members n (r @ CHR ''}'' # rest) = Some (kvs, rest))"
    proof (rule members_roundtrip[OF ok False])
      fix k v
      assume "(k, v) \<in> set kvs" and "json_ok v"
      then show "\<exists>s. dumps_val v = Some s \<and>
               (\<forall>n rest. length s \<le> n \<longrightarrow> follow_ok rest \<longrightarrow>
                  parse_value n (s @ rest) = Some (v, rest))"
        by (rule ih)
    qed
    then obtain r where r: "dumps_items kvs = Some r"
      and r0: "r \<noteq> []" "hd r = dq"
      and pr: "\<And>n rest. length r < n \<Longrightarrow> parse_members n (r @ CHR ''}'' # rest) = Some (kvs, rest)"
      by blast
    from r0 obtain r' where cr: "r = dq # r'" by (cases r) auto
    have ne: "\<not> json_ws dq" "dq \<noteq> CHR ''}''" by (simp_all add: json_ws_def dq_def)
    have "parse_value n ((''{'' @ r @ ''}'') @ rest) = Some (PDict kvs, rest)"
      if "length (''{'' @ r @ ''}'') \<le> n" for n rest
    proof -
      from that obtain m where n: "n = Suc m" and m: "length r < m" by (cases n) auto
      from pr[OF m, of rest] ne show ?thesis
        by (simp add: n cr skip_ws_def json_ws_def)
    qed
    with r show ?thesis by simp
  qed
qed simp_all

lemma py_json_roundtrip:
  assumes "json_ok v"
  shows "\<exists>s. py_json_dumps v = Inr s \<and> py_json_loads s = Inr v"
proof -
  from dumps_parse[OF assms] obtain s where s: "dumps_val v = Some s"
    and p: "\<And>n rest. length s \<le> n \<Longrightarrow> follow_ok rest \<Longrightarrow> parse_value n (s @ rest) = Some (v, rest)"
    by blast
  have "parse_value (Suc (length s)) (s @ []) = Some (v, [])"
    by (rule p) (simp_all add: follow_ok_def)
  then have "py_json_loads s = Inr v" by (simp add: py_json_loads_def skip_ws_def)
  with s show ?thesis by (simp add: py_json_dumps_def)
qed

section \<open>The round trip of an envelope through JSON\<close>

lemma Effect_fromDict_dRet: "Effect_fromDict (Effect_dRet e) = Inr e"
  by (cases e) (simp add: Effect_fromDict_def Effect_dRet_def split: option.splits)

text \<open>
  For any JSON library: when the library reads the text of an envelope back as the dict that
  was written, \<open>fromJSON\<close> gives the envelope back.
\<close>

lemma any_library_reads_envelope_back:
  assumes "Effect_str dumps e = Inr s" and "loads s = Inr (Effect_dRet e)"
  shows "Effect_fromJSON loads s = Inr e"
  using assms by (simp add: Effect_fromJSON_def Effect_fromDict_dRet)

text \<open>
  C1. For every envelope, with any of \<open>data\<close>, \<open>error\<close> and \<open>warning\<close> present or absent,
  whose present values are JSON-representable: the envelope has a JSON text, and \<open>fromJSON\<close>
  of that text is the envelope itself. The same attributes are present, with the same values;
  an absent attribute stays absent and does not become \<open>None\<close>.
\<close>

theorem Effect_json_roundtrip:
  assumes "case data e of None \<Rightarrow> True | Some v \<Rightarrow> json_ok v"
    and "case error e of None \<Rightarrow> True | Some v \<Rightarrow> json_ok v"
    and "case warning e of None \<Rightarrow> True | Some v \<Rightarrow> json_ok v"
  shows "\<exists>s. Effect_str py_json_dumps e = Inr s \<and> Effect_fromJSON py_json_loads s = Inr e"
proof -
  have "json_ok (Effect_dRet e)"
    using assms by (simp add: Effect_dRet_def split: option.splits)
  from py_json_roundtrip[OF this] obtain s where "py_json_dumps (Effect_dRet e) = Inr s"
    and "py_json_loads s = Inr (Effect_dRet e)"
    by blast
  then have "Effect_str py_json_dumps e = Inr s \<and> Effect_fromJSON py_json_loads s = Inr e"
    by (simp add: Effect_str_def Effect_fromJSON_def Effect_fromDict_dRet)
  then show ?thesis by blast
qed

text \<open>
  C1 at an envelope with data, without error and with a warning that is \<open>None\<close>, whose text
  is \<open>{"data": {"ok": true}, "warning": null}\<close>.
\<close>

theorem Effect_json_roundtrip_witness:
  "json_ok (PDict [(PStr ''ok'', PBool True)]) \<and> json_ok PNone \<and>
   Effect_str py_json_dumps
     \<lparr>data = Some (PDict [(PStr ''ok'', PBool True)]), error = None, warning = Some PNone\<rparr> =
     Inr (''{'' @ dq # ''data'' @ dq # '': {'' @ dq # ''ok'' @ dq # '': true}, '' @ dq #
          ''warning'' @ dq # '': null}'') \<and>
   Effect_fromJSON py_json_loads
     (''{'' @ dq # ''data'' @ dq # '': {'' @ dq # ''ok'' @ dq # '': true}, '' @ dq #
      ''warning'' @ dq # '': null}'') =
     Inr \<lparr>data = Some (PDict [(PStr ''ok'', PBool True)]), error = None, warning = Some PNone\<rparr>"
proof -
  let ?e = "\<lparr>data = Some (PDict [(PStr ''ok'', PBool True)]), error = None, warning = Some PNone\<rparr>"
  let ?s = "''{'' @ dq # ''data'' @ dq # '': {'' @ dq # ''ok'' @ dq # '': true}, '' @ dq #
          ''warning'' @ dq # '': null}''"
  have a: "Effect_str py_json_dumps ?e = Inr ?s" by code_simp
  have d: "case data ?e of None \<Rightarrow> True | Some v \<Rightarrow> json_ok v" by simp
  have r: "case error ?e of None \<Rightarrow> True | Some v \<Rightarrow> json_ok v" by simp
  have w: "case warning ?e of None \<Rightarrow> True | Some v \<Rightarrow> json_ok v" by simp
  from Effect_json_roundtrip[OF d r w] obtain s where s: "Effect_str py_json_dumps ?e = Inr s"
    and l: "Effect_fromJSON py_json_loads s = Inr ?e"
    by blast
  from s a have "s = ?s" by simp
  with l a show ?thesis by simp
qed

section \<open>The rule from a path to a method name\<close>

lemma path_scan_Cons_nonsep:
  "\<not> is_sep c \<Longrightarrow> path_scan (c # cs) = map_option ((#) c) (path_scan cs)"
  by (cases cs) simp_all

lemma pathToMethod_loop_scan:
  "pathToMethod_loop path i sRet =
     (case path_scan (drop i path) of
        None \<Rightarrow> Inl (IndexError, [])
      | Some r \<Rightarrow> Inr (sRet @ r))"
proof (induction path i sRet rule: pathToMethod_loop.induct)
  case (1 path i sRet)
  show ?case
  proof (cases "i < length path")
    case False
    then show ?thesis by (subst pathToMethod_loop.simps) simp
  next
    case True
    then have d: "drop i path = path ! i # drop (Suc i) path"
      by (simp add: Cons_nth_drop_Suc)
    show ?thesis
    proof (cases "is_sep (path ! i)")
      case sep: True
      show ?thesis
      proof (cases "Suc i < length path")
        case lt: True
        then have d2: "drop (Suc i) path = path ! Suc i # drop (Suc (Suc i)) path"
          by (simp add: Cons_nth_drop_Suc)
        show ?thesis
          using "1.IH"(1)[OF True sep lt] True sep lt
          by (subst pathToMethod_loop.simps) (simp add: d d2 split: option.splits)
      next
        case ge: False
        then have "drop (Suc i) path = []" by simp
        with True sep ge show ?thesis
          by (subst pathToMethod_loop.simps) (simp add: d)
      qed
    next
      case nosep: False
      show ?thesis
        using "1.IH"(2)[OF True nosep] True nosep
        by (subst pathToMethod_loop.simps) (simp add: d path_scan_Cons_nonsep split: option.splits)
    qed
  qed
qed

lemma pathToMethod_scan:
  "pathToMethod path app =
     (case path_scan path of None \<Rightarrow> Inl (IndexError, []) | Some r \<Rightarrow> Inr (r @ app))"
  by (simp add: pathToMethod_def pathToMethod_loop_scan split: option.splits)

lemma trailing_all: "(\<forall>y\<in>set xs. P y) \<Longrightarrow> takeWhile P (rev xs) = rev xs"
  by (simp add: takeWhile_eq_all_conv)

lemma trailing_Cons:
  "length (takeWhile P (rev (x # xs))) =
     (if (\<forall>y\<in>set xs. P y) then (if P x then Suc (length xs) else length xs)
      else length (takeWhile P (rev xs)))"
  by (auto simp: takeWhile_append trailing_all)

lemma trailing_all_length: "(\<forall>y\<in>set xs. P y) \<Longrightarrow> length (takeWhile P (rev xs)) = length xs"
  by (simp add: trailing_all)

lemma path_scan_fails_iff:
  "path_scan p = None \<longleftrightarrow> odd (length (takeWhile is_sep (rev p)))"
proof -
  define t where "t = (\<lambda>xs. length (takeWhile is_sep (rev xs)))"
  have tC: "t (x # xs) =
      (if (\<forall>y\<in>set xs. is_sep y) then (if is_sep x then Suc (length xs) else length xs)
       else t xs)" for x xs
    unfolding t_def by (rule trailing_Cons)
  have tA: "(\<forall>y\<in>set xs. is_sep y) \<Longrightarrow> t xs = length xs" for xs
    unfolding t_def by (rule trailing_all_length)
  have "path_scan p = None \<longleftrightarrow> odd (t p)"
  proof (induction p rule: path_scan.induct)
    case 1
    show ?case by (simp add: t_def)
  next
    case (2 c)
    show ?case by (simp add: t_def)
  next
    case (3 c d cs)
    show ?case
    proof (cases "is_sep c")
      case True
      then have "path_scan (c # d # cs) = None \<longleftrightarrow> odd (t cs)"
        using 3(1) by simp
      also have "\<dots> \<longleftrightarrow> odd (t (c # d # cs))"
        using True by (auto simp: tC tA)
      finally show ?thesis .
    next
      case False
      then have "path_scan (c # d # cs) = None \<longleftrightarrow> odd (t (d # cs))"
        using 3(2) by simp
      also have "\<dots> \<longleftrightarrow> odd (t (c # d # cs))"
        using False by (auto simp: tC tA)
      finally show ?thesis .
    qed
  qed
  then show ?thesis by (simp add: t_def)
qed

text \<open>
  C5, amended. For every path, \<open>pathToMethod\<close> scans from left to right: a separator
  (\<open>/\<close> or \<open>_\<close>) met by the scan is dropped and the character after it, whatever it is, is
  upper-cased and not scanned again; every other character passes through unchanged; the
  suffix is appended. So \<open>user/permission\<close> gives \<open>userPermission\<close>, \<open>a_b\<close> gives \<open>aB\<close>
  and \<open>noop\<close> gives \<open>noop\<close>. The call raises \<open>IndexError\<close> exactly when the scan meets a
  separator at the last position, which is when the path ends in a run of separators of odd
  length, as \<open>a/\<close> does.
\<close>

theorem pathToMethod_rule:
  "pathToMethod path app =
     (case path_scan path of None \<Rightarrow> Inl (IndexError, []) | Some r \<Rightarrow> Inr (r @ app))
   \<and> (path_scan path = None \<longleftrightarrow> odd (length (takeWhile is_sep (rev path))))
   \<and> pathToMethod ''user/permission'' [] = Inr ''userPermission''
   \<and> pathToMethod ''a_b'' [] = Inr ''aB''
   \<and> pathToMethod ''noop'' [] = Inr ''noop''
   \<and> pathToMethod ''auth_session'' ''_create'' = Inr ''authSession_create''
   \<and> pathToMethod ''a/'' [] = Inl (IndexError, [])"
proof -
  have v1: "pathToMethod ''user/permission'' [] = Inr ''userPermission''" by code_simp
  have v2: "pathToMethod ''a_b'' [] = Inr ''aB''" by code_simp
  have v3: "pathToMethod ''noop'' [] = Inr ''noop''" by code_simp
  have v4: "pathToMethod ''auth_session'' ''_create'' = Inr ''authSession_create''" by code_simp
  have v5: "pathToMethod ''a/'' [] = Inl (IndexError, [])" by code_simp
  show ?thesis
    by (intro conjI pathToMethod_scan path_scan_fails_iff v1 v2 v3 v4 v5)
qed

text \<open>
  C5 as stated fails: the last character of \<open>a__\<close> is a separator, yet the path gives the
  name \<open>a_\<close>, and \<open>read\<close> on it calls the method \<open>a__read\<close>; in \<open>a__b\<close> the second
  separator is not dropped.
\<close>

theorem pathToMethod_trailing_separator_resolves:
  "pathToMethod ''a__'' [] = Inr ''a_'' \<and>
   pathToMethod ''a__b'' [] = Inr ''a_b'' \<and>
   Service_read sample_errors
     [''a__read'' \<mapsto> (\<lambda>d sesh. Inr \<lparr>data = Some (PStr ''handled''), error = None, warning = None\<rparr>)]
     ''a__'' (PDict []) None =
     Inr \<lparr>data = Some (PStr ''handled''), error = None, warning = None\<rparr>"
  by code_simp

section \<open>Registration\<close>

lemma register_items_other:
  "k \<notin> fst ` set items \<Longrightarrow>
   mdRegistered (fst (register_items init rc st items)) k = mdRegistered st k"
proof (induction items arbitrary: st)
  case Nil
  show ?case by simp
next
  case (Cons b items)
  obtain k' v where b: "b = (k', v)" by (cases b)
  from Cons.prems b have ne: "k \<noteq> k'" and rest: "k \<notin> fst ` set items" by auto
  show ?case
    using Cons.IH[OF rest] ne
    by (simp add: b Let_def split: binding.splits sum.splits option.splits)
qed

lemma register_items_salt: "msSalt (fst (register_items init rc st items)) = msSalt st"
proof (induction items arbitrary: st)
  case Nil
  show ?case by simp
next
  case (Cons b items)
  obtain k' v where b: "b = (k', v)" by (cases b)
  show ?case
    using Cons.IH
    by (simp add: b Let_def split: binding.splits sum.splits option.splits)
qed

lemma register_items_keeps:
  "mdRegistered st k \<noteq> None \<Longrightarrow> mdRegistered (fst (register_items init rc st items)) k \<noteq> None"
proof (induction items arbitrary: st)
  case Nil
  then show ?case by simp
next
  case (Cons b items)
  obtain k' v where b: "b = (k', v)" by (cases b)
  show ?case
  proof (cases v)
    case (BService h)
    let ?st = "st\<lparr>mdRegistered := (mdRegistered st)(k' \<mapsto> Instance h)\<rparr>"
    have "mdRegistered ?st k \<noteq> None" using Cons.prems by simp
    from Cons.IH[OF this] Cons.prems show ?thesis
      by (simp add: b BService Let_def split: sum.splits)
  next
    case BNone
    show ?thesis
    proof (cases "map_of rc k'")
      case None
      with Cons.prems show ?thesis by (simp add: b BNone)
    next
      case (Some conf)
      show ?thesis
      proof (cases "map_of conf ''url''")
        case None
        with Cons.prems Some show ?thesis by (simp add: b BNone)
      next
        case (Some u)
        let ?st = "st\<lparr>mdRegistered := (mdRegistered st)(k' \<mapsto> Url u)\<rparr>"
        have "mdRegistered ?st k \<noteq> None" using Cons.prems by simp
        from Cons.IH[OF this] \<open>map_of rc k' = Some conf\<close> Some show ?thesis
          by (simp add: b BNone)
      qed
    qed
  next
    case (BOther x)
    with Cons.prems show ?thesis by (simp add: b)
  qed
qed

lemma register_items_append:
  "register_items init rc st (xs @ ys) =
     (case register_items init rc st xs of
        (st', None) \<Rightarrow> register_items init rc st' ys
      | (st', Some x) \<Rightarrow> (st', Some x))"
proof (induction xs arbitrary: st)
  case Nil
  show ?case by simp
next
  case (Cons b xs)
  obtain k' v where b: "b = (k', v)" by (cases b)
  show ?case
    using Cons.IH
    by (simp add: b Let_def split: binding.splits sum.splits option.splits)
qed

lemma register_items_ok:
  "\<forall>b\<in>set items. binding_ok init rc b \<Longrightarrow> snd (register_items init rc st items) = None"
proof (induction items arbitrary: st)
  case Nil
  show ?case by simp
next
  case (Cons b items)
  obtain k' v where b: "b = (k', v)" by (cases b)
  from Cons.prems have ok: "binding_ok init rc (k', v)" and rest: "\<forall>b\<in>set items. binding_ok init rc b"
    by (simp_all add: b)
  show ?case
  proof (cases v)
    case (BService h)
    with ok obtain r where "init h = Inr r"
      by (cases "init h") (simp_all add: binding_ok_def)
    then show ?thesis using Cons.IH[OF rest] by (simp add: b BService Let_def)
  next
    case BNone
    with ok obtain conf u where "map_of rc k' = Some conf" "map_of conf ''url'' = Some u"
      by (auto simp: binding_ok_def split: option.splits)
    then show ?thesis using Cons.IH[OF rest] by (simp add: b BNone)
  next
    case (BOther x)
    with ok show ?thesis by (simp add: binding_ok_def)
  qed
qed

lemma register_items_registered:
  "snd (register_items init rc st items) = None \<Longrightarrow> k \<in> fst ` set items \<Longrightarrow>
   mdRegistered (fst (register_items init rc st items)) k \<noteq> None"
proof (induction items arbitrary: st)
  case Nil
  then show ?case by simp
next
  case (Cons b items)
  obtain k' v where b: "b = (k', v)" by (cases b)
  show ?case
  proof (cases v)
    case (BService h)
    let ?st = "st\<lparr>mdRegistered := (mdRegistered st)(k' \<mapsto> Instance h)\<rparr>"
    from Cons.prems(1) obtain r where r: "init h = Inr r"
      by (cases "init h") (simp_all add: b BService Let_def)
    then have eq: "register_items init rc st (b # items) = register_items init rc ?st items"
      by (simp add: b BService Let_def)
    show ?thesis
    proof (cases "k = k'")
      case True
      have "mdRegistered ?st k \<noteq> None" using True by simp
      then show ?thesis unfolding eq by (rule register_items_keeps)
    next
      case False
      with Cons.prems(2) have "k \<in> fst ` set items" by (auto simp: b)
      with Cons.IH[of ?st] Cons.prems(1) show ?thesis unfolding eq by simp
    qed
  next
    case BNone
    from Cons.prems(1) obtain conf u where c: "map_of rc k' = Some conf" "map_of conf ''url'' = Some u"
      by (auto simp: b BNone split: option.splits)
    let ?st = "st\<lparr>mdRegistered := (mdRegistered st)(k' \<mapsto> Url u)\<rparr>"
    have eq: "register_items init rc st (b # items) = register_items init rc ?st items"
      by (simp add: b BNone c)
    show ?thesis
    proof (cases "k = k'")
      case True
      have "mdRegistered ?st k \<noteq> None" using True by simp
      then show ?thesis unfolding eq by (rule register_items_keeps)
    next
      case False
      with Cons.prems(2) have "k \<in> fst ` set items" by (auto simp: b)
      with Cons.IH[of ?st] Cons.prems(1) show ?thesis unfolding eq by simp
    qed
  next
    case (BOther x)
    with Cons.prems(1) show ?thesis by (simp add: b)
  qed
qed

lemma register_items_instance:
  "snd (register_items init rc st items) = None \<Longrightarrow> distinct (map fst items) \<Longrightarrow>
   (k, BService h) \<in> set items \<Longrightarrow>
   mdRegistered (fst (register_items init rc st items)) k = Some (Instance h)"
proof (induction items arbitrary: st)
  case Nil
  then show ?case by simp
next
  case (Cons b items)
  obtain k' v where b: "b = (k', v)" by (cases b)
  from Cons.prems(2) have notin: "k' \<notin> fst ` set items" and dist: "distinct (map fst items)"
    by (simp_all add: b)
  show ?case
  proof (cases "(k, BService h) = b")
    case True
    then have kv: "k' = k" "v = BService h" by (simp_all add: b)
    let ?st = "st\<lparr>mdRegistered := (mdRegistered st)(k \<mapsto> Instance h)\<rparr>"
    from Cons.prems(1) obtain r where r: "init h = Inr r"
      by (cases "init h") (simp_all add: b kv Let_def)
    then have eq: "register_items init rc st (b # items) = register_items init rc ?st items"
      by (simp add: b kv Let_def)
    have "mdRegistered (fst (register_items init rc ?st items)) k = mdRegistered ?st k"
      using notin kv by (intro register_items_other) simp
    then show ?thesis unfolding eq by simp
  next
    case False
    with Cons.prems(3) have mem: "(k, BService h) \<in> set items" by simp
    show ?thesis
    proof (cases v)
      case (BService h')
      from Cons.prems(1) obtain r where r: "init h' = Inr r"
        by (cases "init h'") (simp_all add: b BService Let_def)
      then show ?thesis
        using Cons.IH[OF _ dist mem] Cons.prems(1) by (simp add: b BService Let_def)
    next
      case BNone
      from Cons.prems(1) obtain conf u where c: "map_of rc k' = Some conf" "map_of conf ''url'' = Some u"
        by (auto simp: b BNone split: option.splits)
      then show ?thesis
        using Cons.IH[OF _ dist mem] Cons.prems(1) by (simp add: b BNone)
    next
      case (BOther x)
      with Cons.prems(1) show ?thesis by (simp add: b)
    qed
  qed
qed

lemma register_items_discards_return:
  "register_items init rc st items =
   register_items (\<lambda>v. case init v of Inl x \<Rightarrow> Inl x | Inr r \<Rightarrow> Inr v) rc st items"
proof (induction items arbitrary: st)
  case Nil
  show ?case by simp
next
  case (Cons b items)
  obtain k' v where b: "b = (k', v)" by (cases b)
  show ?case
    using Cons.IH
    by (simp add: b Let_def split: binding.splits sum.splits option.splits)
qed

text \<open>
  When the bindings before an instance are registered without an exception and the hook of
  the instance raises, the call raises that exception in the state in which the instance is
  already stored: the entry is written before the hook is called.
\<close>

lemma register_items_hook_raises:
  assumes "\<forall>b\<in>set pre. binding_ok init rc b" and "init h = Inl x"
  shows "register_items init rc st (pre @ (k, BService h) # post) =
           (let st1 = fst (register_items init rc st pre)
            in (st1\<lparr>mdRegistered := (mdRegistered st1)(k \<mapsto> Instance h)\<rparr>, Some x))"
proof -
  have ok: "snd (register_items init rc st pre) = None"
    using assms(1) by (rule register_items_ok)
  then obtain st1 where pre: "register_items init rc st pre = (st1, None)"
    by (cases "register_items init rc st pre") simp
  then have st1: "fst (register_items init rc st pre) = st1" by simp
  have hook: "register_items init rc st1 ((k, BService h) # post) =
                (st1\<lparr>mdRegistered := (mdRegistered st1)(k \<mapsto> Instance h)\<rparr>, Some x)"
    using assms(2) by (simp add: Let_def)
  show ?thesis
    unfolding st1 Let_def
    by (simp add: register_items_append pre hook del: register_items.simps)
qed

text \<open>
  C8, amended. For every binding of a name to an instance in a registration that returns,
  the entry stored under that name is the instance that was passed in. The value returned by
  its hook \<open>initialise\<close> is not used: every registration is the same as with a hook that
  returns the instance itself. The entry is stored before the hook is called: when the
  bindings before the instance are registered without an exception and its hook raises, the
  call raises that exception and the instance is registered already.
\<close>

theorem register_stores_passed_instance:
  "(register init st (ServicesDict items) rc salt = (st', None) \<longrightarrow>
      distinct (map fst items) \<longrightarrow> (k, BService h) \<in> set items \<longrightarrow>
      mdRegistered st' k = Some (Instance h))
   \<and> register init st services rc salt =
       register (\<lambda>v. case init v of Inl x \<Rightarrow> Inl x | Inr r \<Rightarrow> Inr v) st services rc salt
   \<and> ((\<forall>b\<in>set pre. binding_ok init rc b) \<longrightarrow> init h = Inl x \<longrightarrow>
        register init st (ServicesDict (pre @ (k, BService h) # post)) rc salt =
          (let st1 = fst (register_items init rc (st\<lparr>msSalt := Some salt\<rparr>) pre)
           in (st1\<lparr>mdRegistered := (mdRegistered st1)(k \<mapsto> Instance h)\<rparr>, Some x)))"
proof (intro conjI impI)
  let ?st = "st\<lparr>msSalt := Some salt\<rparr>"
  assume r: "register init st (ServicesDict items) rc salt = (st', None)"
    and d: "distinct (map fst items)" and m: "(k, BService h) \<in> set items"
  from r have ri: "register_items init rc ?st items = (st', None)"
    by (simp add: register_def)
  then have "snd (register_items init rc ?st items) = None" by simp
  from register_items_instance[OF this d m] ri
  show "mdRegistered st' k = Some (Instance h)" by simp
next
  show "register init st services rc salt =
       register (\<lambda>v. case init v of Inl x \<Rightarrow> Inl x | Inr r \<Rightarrow> Inr v) st services rc salt"
  proof (cases services)
    case (ServicesDict items)
    then show ?thesis
      using register_items_discards_return[of init rc "st\<lparr>msSalt := Some salt\<rparr>" items]
      by (simp add: register_def)
  next
    case (ServicesOther y)
    then show ?thesis by (simp add: register_def)
  qed
next
  assume "\<forall>b\<in>set pre. binding_ok init rc b" and "init h = Inl x"
  then show "register init st (ServicesDict (pre @ (k, BService h) # post)) rc salt =
          (let st1 = fst (register_items init rc (st\<lparr>msSalt := Some salt\<rparr>) pre)
           in (st1\<lparr>mdRegistered := (mdRegistered st1)(k \<mapsto> Instance h)\<rparr>, Some x))"
    by (simp add: register_def register_items_hook_raises del: register_items.simps)
qed

text \<open>
  The amended C8 at one binding whose hook returns a replacement, and at a remote binding
  followed by an instance whose hook raises and by a third binding.
\<close>

theorem register_stores_passed_instance_witness:
  "snd (register decorating_initialise empty_state (ServicesDict [(''auth'', BService 7)]) [] ''salt'')
     = None \<and>
   mdRegistered
     (fst (register decorating_initialise empty_state (ServicesDict [(''auth'', BService 7)]) []
             ''salt'')) ''auth'' = Some (Instance 7) \<and>
   binding_ok failing_initialise [(''users'', [(''url'', ''http://users'')])] (''users'', BNone) \<and>
   failing_initialise 7 = Inl (OtherException ''RuntimeError'', [PStr ''no database'']) \<and>
   snd (register failing_initialise empty_state
          (ServicesDict [(''users'', BNone), (''auth'', BService 7), (''mail'', BService 8)])
          [(''users'', [(''url'', ''http://users'')])] ''salt'') =
     Some (OtherException ''RuntimeError'', [PStr ''no database'']) \<and>
   mdRegistered
     (fst (register failing_initialise empty_state
             (ServicesDict [(''users'', BNone), (''auth'', BService 7), (''mail'', BService 8)])
             [(''users'', [(''url'', ''http://users'')])] ''salt'')) ''auth'' =
     Some (Instance 7) \<and>
   mdRegistered
     (fst (register failing_initialise empty_state
             (ServicesDict [(''users'', BNone), (''auth'', BService 7), (''mail'', BService 8)])
             [(''users'', [(''url'', ''http://users'')])] ''salt'')) ''mail'' = None"
proof -
  let ?r = "register decorating_initialise empty_state (ServicesDict [(''auth'', BService 7)]) [] ''salt''"
  let ?rc = "[(''users'', [(''url'', ''http://users'')])]"
  have s: "snd ?r = None" by (simp add: register_def decorating_initialise_def)
  then have e: "?r = (fst ?r, None)" by (cases ?r) simp
  have d: "distinct (map fst [(''auth'', BService (7::nat))])" by simp
  have m: "(''auth'', BService (7::nat)) \<in> set [(''auth'', BService 7)]" by simp
  have one: "mdRegistered (fst ?r) ''auth'' = Some (Instance 7)"
    using register_stores_passed_instance[where init = decorating_initialise
        and st = empty_state and items = "[(''auth'', BService 7)]" and rc = "[]"
        and salt = "''salt''" and st' = "fst ?r" and k = "''auth''" and h = 7] e d m
    by blast
  have ok: "\<forall>b\<in>set [(''users'', BNone :: nat binding)]. binding_ok failing_initialise ?rc b"
    by (simp add: binding_ok_def)
  have f: "failing_initialise 7 = Inl (OtherException ''RuntimeError'', [PStr ''no database''])"
    by (simp add: failing_initialise_def)
  have two: "register failing_initialise empty_state
          (ServicesDict ([(''users'', BNone)] @ (''auth'', BService 7) # [(''mail'', BService 8)]))
          ?rc ''salt'' =
          (let st1 = fst (register_items failing_initialise ?rc
                           (empty_state\<lparr>msSalt := Some ''salt''\<rparr>) [(''users'', BNone)])
           in (st1\<lparr>mdRegistered := (mdRegistered st1)(''auth'' \<mapsto> Instance 7)\<rparr>,
               Some (OtherException ''RuntimeError'', [PStr ''no database''])))"
    using register_stores_passed_instance[where init = failing_initialise
        and st = empty_state and rc = ?rc and salt = "''salt''" and h = 7
        and pre = "[(''users'', BNone)]" and k = "''auth''" and post = "[(''mail'', BService 8)]"
        and x = "(OtherException ''RuntimeError'', [PStr ''no database''])"] ok f
    by blast
  have three: "binding_ok failing_initialise ?rc (''users'', BNone)"
    by (simp add: binding_ok_def)
  from two have four:
    "snd (register failing_initialise empty_state
          (ServicesDict [(''users'', BNone), (''auth'', BService 7), (''mail'', BService 8)])
          ?rc ''salt'') = Some (OtherException ''RuntimeError'', [PStr ''no database''])"
    "mdRegistered (fst (register failing_initialise empty_state
          (ServicesDict [(''users'', BNone), (''auth'', BService 7), (''mail'', BService 8)])
          ?rc ''salt'')) ''auth'' = Some (Instance 7)"
    "mdRegistered (fst (register failing_initialise empty_state
          (ServicesDict [(''users'', BNone), (''auth'', BService 7), (''mail'', BService 8)])
          ?rc ''salt'')) ''mail'' = None"
    by (simp_all add: Let_def empty_state_def)
  from s one three f four show ?thesis by blast
qed

text \<open>
  C8 as stated fails: the hook of instance 0 returns the replacement 1, and the entry stored
  for \<open>auth\<close> is instance 0, not 1.
\<close>

theorem register_ignores_hook_result:
  "snd (register decorating_initialise empty_state (ServicesDict [(''auth'', BService 0)]) [] ''salt'')
     = None \<and>
   decorating_initialise 0 = Inr 1 \<and>
   mdRegistered
     (fst (register decorating_initialise empty_state (ServicesDict [(''auth'', BService 0)]) []
             ''salt'')) ''auth'' = Some (Instance 0) \<and>
   mdRegistered
     (fst (register decorating_initialise empty_state (ServicesDict [(''auth'', BService 0)]) []
             ''salt'')) ''auth'' \<noteq> Some (Instance 1)"
  by (simp add: register_def decorating_initialise_def)

text \<open>
  C10. \<open>register\<close> is not atomic. The salt is set before anything is checked: also when
  \<open>services\<close> is not a dict. When the bindings before a binding are registered without an
  exception and that binding is \<open>None\<close> without an entry in \<open>restconf\<close>, or is of another
  shape, the call raises \<open>ValueError('services.' + name)\<close> in the state reached by the
  bindings before it: the salt is the new one and each of their names is registered.
\<close>

theorem register_not_atomic:
  assumes "\<forall>b\<in>set pre. binding_ok init rc b" and "binding_invalid rc (k, v)"
  shows "register init st (ServicesDict (pre @ (k, v) # post)) rc salt =
           (fst (register_items init rc (st\<lparr>msSalt := Some salt\<rparr>) pre),
            Some (ValueError, [PStr (''services.'' @ k)]))
       \<and> msSalt (fst (register init st (ServicesDict (pre @ (k, v) # post)) rc salt)) = Some salt
       \<and> (\<forall>name\<in>fst ` set pre.
            mdRegistered (fst (register init st (ServicesDict (pre @ (k, v) # post)) rc salt)) name
              \<noteq> None)
       \<and> register init st (ServicesOther x) rc salt =
           (st\<lparr>msSalt := Some salt\<rparr>, Some (ValueError, [PStr ''services'']))"
proof -
  let ?st = "st\<lparr>msSalt := Some salt\<rparr>"
  have ok: "snd (register_items init rc ?st pre) = None"
    using assms(1) by (rule register_items_ok)
  then obtain st1 where pre: "register_items init rc ?st pre = (st1, None)"
    by (cases "register_items init rc ?st pre") simp
  then have st1: "fst (register_items init rc ?st pre) = st1" by simp
  have fail: "register_items init rc st1 ((k, v) # post) =
                (st1, Some (ValueError, [PStr (''services.'' @ k)]))"
    using assms(2) by (cases v) (simp_all add: binding_invalid_def)
  have r: "register init st (ServicesDict (pre @ (k, v) # post)) rc salt =
             (st1, Some (ValueError, [PStr (''services.'' @ k)]))"
    by (simp add: register_def register_items_append pre fail del: register_items.simps)
  have s: "msSalt st1 = Some salt"
    using register_items_salt[of init rc ?st pre] by (simp add: st1)
  have g: "\<forall>name\<in>fst ` set pre. mdRegistered st1 name \<noteq> None"
    using register_items_registered[OF ok] by (simp add: st1)
  have o: "register init st (ServicesOther x) rc salt =
           (st\<lparr>msSalt := Some salt\<rparr>, Some (ValueError, [PStr ''services'']))"
    by (simp add: register_def)
  show ?thesis unfolding r st1 using s g o by simp
qed

text \<open>
  C10 at three bindings of which the second fails: the first is registered, the third is not,
  the salt is set.
\<close>

theorem register_not_atomic_witness:
  "binding_ok Service_initialise [] (''users'', BService (3::nat)) \<and>
   binding_invalid [] (''auth'', BNone :: nat binding) \<and>
   snd (register Service_initialise empty_state
          (ServicesDict [(''users'', BService 3), (''auth'', BNone), (''mail'', BService 4)]) []
          ''salt'') = Some (ValueError, [PStr ''services.auth'']) \<and>
   msSalt (fst (register Service_initialise empty_state
          (ServicesDict [(''users'', BService 3), (''auth'', BNone), (''mail'', BService 4)]) []
          ''salt'')) = Some ''salt'' \<and>
   mdRegistered (fst (register Service_initialise empty_state
          (ServicesDict [(''users'', BService 3), (''auth'', BNone), (''mail'', BService 4)]) []
          ''salt'')) ''users'' = Some (Instance 3) \<and>
   mdRegistered (fst (register Service_initialise empty_state
          (ServicesDict [(''users'', BService 3), (''auth'', BNone), (''mail'', BService 4)]) []
          ''salt'')) ''mail'' = None"
proof -
  have a: "\<forall>b\<in>set [(''users'', BService (3::nat))]. binding_ok Service_initialise [] b"
    by (simp add: binding_ok_def Service_initialise_def)
  have b: "binding_invalid [] (''auth'', BNone :: nat binding)"
    by (simp add: binding_invalid_def)
  from register_not_atomic[OF a b, of empty_state "[(''mail'', BService 4)]" "''salt''" PNone] a b
  show ?thesis
    by (simp add: Service_initialise_def empty_state_def)
qed

end
